theory Spec2Isabelle
  imports Complex_Main
begin

section \<open>N-dimensional arrays\<close>

text \<open>
  The notebook works on \<^verbatim>\<open>numpy\<close> arrays.  An array is its shape together with its
  elements in row-major (C) order; a position is a multi-index, one coordinate per axis.
\<close>

type_synonym pos = "nat list"

record 'a ndarray =
  shape :: "nat list"
  data :: "'a list"

text \<open>All positions of a shape, in row-major order (the order of \<^verbatim>\<open>ravel\<close>).\<close>

fun indices :: "nat list \<Rightarrow> pos list" where
  "indices [] = [[]]"
| "indices (n # ns) = concat (map (\<lambda>i. map ((#) i) (indices ns)) [0..<n])"

definition wellformed :: "'a ndarray \<Rightarrow> bool" where
  "wellformed a = (length (data a) = length (indices (shape a)))"

text \<open>Reading one element; \<open>None\<close> stands for an index outside the array.\<close>

definition lookup :: "'a ndarray \<Rightarrow> pos \<Rightarrow> 'a option" where
  "lookup a p = map_of (zip (indices (shape a)) (data a)) p"

definition tabulate :: "nat list \<Rightarrow> (pos \<Rightarrow> 'a) \<Rightarrow> 'a ndarray" where
  "tabulate sh f = \<lparr>shape = sh, data = map f (indices sh)\<rparr>"

text \<open>An element-wise operation keeps the shape.\<close>

definition map_nd :: "('a \<Rightarrow> 'b) \<Rightarrow> 'a ndarray \<Rightarrow> 'b ndarray" where
  "map_nd f a = \<lparr>shape = shape a, data = map f (data a)\<rparr>"

text \<open>\<^verbatim>\<open>np.zeros(shape, dtype=np.uint64)\<close>\<close>

definition zeros :: "nat list \<Rightarrow> int ndarray" where
  "zeros sh = \<lparr>shape = sh, data = replicate (length (indices sh)) 0\<rparr>"

text \<open>The element-wise comparison \<^verbatim>\<open>a == b\<close> of two arrays of one shape.\<close>

definition equal_nd :: "'a ndarray \<Rightarrow> 'a ndarray \<Rightarrow> bool ndarray" where
  "equal_nd a b = \<lparr>shape = shape a, data = map2 (=) (data a) (data b)\<rparr>"

text \<open>
  The neighbours of a position at connectivity 1: one step back and one step forward along
  each axis.  A step forward may leave the array; a reader of \<open>neighbors\<close> has to check that
  the neighbour is a position of the array (the watershed of scikit-image pads image and
  mask by one pixel, so that such a neighbour is simply outside the mask).
\<close>

definition neighbors :: "pos \<Rightarrow> pos list" where
  "neighbors p =
     concat (map (\<lambda>k. (if 0 < p ! k then [p[k := p ! k - 1]] else []) @ [p[k := p ! k + 1]])
       [0..<length p])"

section \<open>Signed distance transform: the boundary indicator\<close>

text \<open>
  \<^verbatim>\<open>compute_sdt\<close> loops over the axes.  For each axis it compares the labels with the labels
  shifted by one pixel along the axis,
  \<^verbatim>\<open>bounds = labels[..., 1:, ...] == labels[..., :-1, ...]\<close>,
  pads the result by one entry at both ends of the axis,
  \<^verbatim>\<open>np.pad(bounds, ..., mode="constant", constant_values=1)\<close>,
  and hands it to \<^verbatim>\<open>scipy.ndimage.distance_transform_edt\<close>, which measures the distance of
  every non-zero entry to the nearest zero entry.  What follows in the loop (the distance
  transform, its cubic resampling by \<^verbatim>\<open>map_coordinates\<close>, the minimum over the axes, the
  \<^verbatim>\<open>tanh\<close> and the sign flip) comes further down, after the rounding of 64-bit floats.
\<close>

text \<open>
  The two slices.  Every position of a slice is read inside the sliced array: the slice is
  one shorter along the axis.
\<close>

definition drop_first :: "nat \<Rightarrow> 'a ndarray \<Rightarrow> 'a ndarray" where
  "drop_first axis a =
     tabulate ((shape a)[axis := shape a ! axis - 1]) (\<lambda>p. the (lookup a (p[axis := p ! axis + 1])))"

definition drop_last :: "nat \<Rightarrow> 'a ndarray \<Rightarrow> 'a ndarray" where
  "drop_last axis a =
     tabulate ((shape a)[axis := shape a ! axis - 1]) (\<lambda>p. the (lookup a p))"

text \<open>\<^verbatim>\<open>np.pad\<close> with pad width \<open>(1, 1)\<close> along one axis and a constant.\<close>

definition pad_axis :: "nat \<Rightarrow> 'a \<Rightarrow> 'a ndarray \<Rightarrow> 'a ndarray" where
  "pad_axis axis c a =
     tabulate ((shape a)[axis := shape a ! axis + 2])
       (\<lambda>p. if p ! axis = 0 \<or> p ! axis = shape a ! axis + 1 then c
            else the (lookup a (p[axis := p ! axis - 1])))"

text \<open>The array \<^verbatim>\<open>bounds\<close> as the distance transform receives it in the iteration \<open>axis\<close>.\<close>

definition sdt_bounds :: "'a ndarray \<Rightarrow> nat \<Rightarrow> bool ndarray" where
  "sdt_bounds labels axis =
     pad_axis axis True (equal_nd (drop_first axis labels) (drop_last axis labels))"

section \<open>Local maxima\<close>

text \<open>
  Modelled from the spec: the body of \<^verbatim>\<open>find_local_maxima\<close>.  The notebook has the
  signature, the hint to use \<^verbatim>\<open>maximum_filter\<close>, the import of \<^verbatim>\<open>label\<close> and
  \<^verbatim>\<open>maximum_filter\<close> from \<^verbatim>\<open>scipy.ndimage\<close>, and the placeholder
  \<^verbatim>\<open>seeds, number_of_seeds = ...\<close>.  The written contract of the function reads: apply a
  local maximum filter over a neighbourhood sized by the minimum-distance parameter; a
  position is a seed candidate if its value equals the filtered value at that position;
  label connected candidate regions into distinct positive-integer seed ids; report the
  count of seeds alongside the seed map.
\<close>

text \<open>
  Modelled from the spec: the neighbourhood of the maximum filter.  It has \<open>sz\<close> cells along
  every axis, from \<open>sz div 2\<close> cells before the position on, and is cut at the border of the
  array (for a maximum this is what the reflecting border of \<^verbatim>\<open>maximum_filter\<close> amounts
  to).
\<close>

definition window :: "nat list \<Rightarrow> nat \<Rightarrow> pos \<Rightarrow> pos list" where
  "window sh sz p =
     filter (list_all2 (\<lambda>c x. c \<le> x + sz div 2 \<and> x + sz div 2 < c + sz) p) (indices sh)"

text \<open>Modelled from the spec: the local maximum filter.\<close>

definition maximum_filter :: "'a::linorder ndarray \<Rightarrow> nat \<Rightarrow> 'a ndarray" where
  "maximum_filter d sz =
     tabulate (shape d)
       (\<lambda>p. fold max (map (\<lambda>q. the (lookup d q)) (window (shape d) sz p)) (the (lookup d p)))"

text \<open>
  Modelled from the spec: the seed candidates, the positions whose value equals the
  filtered value, in row-major order.
\<close>

definition candidates :: "'a::linorder ndarray \<Rightarrow> nat \<Rightarrow> pos list" where
  "candidates d sz =
     filter (\<lambda>p. lookup (equal_nd (maximum_filter d sz) d) p = Some True) (indices (shape d))"

text \<open>
  Modelled from the spec: connected candidate regions.  Two candidates are linked when they
  are neighbours at connectivity 1 (the default structure of \<^verbatim>\<open>label\<close>); a region is a
  class of candidates that chains of links connect.
\<close>

definition region_edges :: "pos list \<Rightarrow> (pos \<times> pos) list" where
  "region_edges cands =
     concat (map (\<lambda>p. map (Pair p) (filter (\<lambda>q. q \<in> set cands) (neighbors p))) cands)"

definition same_region :: "pos list \<Rightarrow> pos \<Rightarrow> pos \<Rightarrow> bool" where
  "same_region cands p q = (p = q \<or> (p, q) \<in> (set (region_edges cands))\<^sup>+)"

text \<open>
  Modelled from the spec: the seed ids.  The first candidate of a region in row-major order
  stands for the region, and the regions are numbered from 1 in the order of these first
  candidates.
\<close>

definition region_root :: "pos list \<Rightarrow> pos \<Rightarrow> pos option" where
  "region_root cands p = find (\<lambda>q. same_region cands q p) cands"

definition roots :: "pos list \<Rightarrow> pos list" where
  "roots cands = filter (\<lambda>p. region_root cands p = Some p) cands"

definition seed_id :: "pos list \<Rightarrow> pos \<Rightarrow> int" where
  "seed_id cands p =
     (case region_root cands p of
        Some r \<Rightarrow> if p \<in> set cands then int (length (takeWhile (\<lambda>q. q \<noteq> r) (roots cands))) + 1 else 0
      | None \<Rightarrow> 0)"

text \<open>Modelled from the spec: the function itself, the seed map and the count of seeds.\<close>

definition find_local_maxima :: "'a::linorder ndarray \<Rightarrow> nat \<Rightarrow> int ndarray \<times> nat" where
  "find_local_maxima distance_transform min_dist_between_points =
     (let cands = candidates distance_transform min_dist_between_points
      in (tabulate (shape distance_transform) (seed_id cands), length (roots cands)))"

text \<open>
  A field of two unit impulses, at the positions \<open>a\<close> and \<open>b\<close>, in a background of zeros.
\<close>

definition two_impulses :: "'a::{zero,one} ndarray \<Rightarrow> pos \<Rightarrow> pos \<Rightarrow> bool" where
  "two_impulses d a b =
     (a \<noteq> b \<and> lookup d a = Some 1 \<and> lookup d b = Some 1
      \<and> (\<forall>p\<in>set (indices (shape d)). p \<noteq> a \<and> p \<noteq> b \<longrightarrow> lookup d p = Some 0))"

section \<open>Errors and results\<close>

text \<open>
  The exceptions the modelled code can raise: \<^verbatim>\<open>max()\<close> of an array without elements,
  and the shape check of \<^verbatim>\<open>skimage.segmentation.watershed\<close> (both are
  \<^verbatim>\<open>ValueError\<close> in Python); and the \<^verbatim>\<open>OverflowError\<close> of \<^verbatim>\<open>numpy\<close> for an id offset that
  does not fit the element type of the seed map.
\<close>

datatype error = EmptyReduction | ShapeMismatch | OverflowError

text \<open>
  \<^verbatim>\<open>watershed_from_boundary_distance\<close> has two \<^verbatim>\<open>return\<close> statements: one returns a
  tuple of an array and the id offset, the other an array alone.
\<close>

datatype ret = RTuple "int ndarray" int | RArray "int ndarray"

section \<open>The seeded watershed of scikit-image\<close>

text \<open>
  \<^verbatim>\<open>skimage.segmentation.watershed(image, markers, mask=mask)\<close> with its defaults
  (connectivity 1, no compactness, no watershed lines) is a priority flood: the marker
  pixels enter a heap ordered by terrain height and then by age; the pixel taken from
  the heap hands its label to every unlabelled neighbour inside the mask, and each such
  neighbour enters the heap in turn.  Which pixels the flood labels, and that a label is
  the label of a marker connected to the pixel inside the mask, does not depend on the
  order of the heap; which of two meeting floods takes a pixel does.  The order here is
  that of height and age, with markers of equal height taken in raveled order and a
  neighbour entering the heap at its own height.
\<close>

record 'a heapitem =
  hval :: 'a
  age :: nat
  index :: pos
  source :: pos

definition smaller :: "'a::linorder heapitem \<Rightarrow> 'a heapitem \<Rightarrow> bool" where
  "smaller a b = (if hval a \<noteq> hval b then hval a < hval b else age a < age b)"

text \<open>
  The heap is kept as a list in ascending order, so that its head is the item
  \<^verbatim>\<open>heappop\<close> returns.
\<close>

fun heappush :: "'a::linorder heapitem \<Rightarrow> 'a heapitem list \<Rightarrow> 'a heapitem list" where
  "heappush e [] = [e]"
| "heappush e (x # xs) = (if smaller e x then e # x # xs else x # heappush e xs)"

record 'a wstate =
  heap :: "'a heapitem list"
  outp :: "pos \<Rightarrow> int"
  agec :: nat

text \<open>The body of the loop over the neighbours of the item \<open>elem\<close> taken from the heap.\<close>

definition visit ::
  "(pos \<Rightarrow> 'a::linorder) \<Rightarrow> (pos \<Rightarrow> bool) \<Rightarrow> 'a heapitem \<Rightarrow> pos \<Rightarrow> 'a wstate \<Rightarrow> 'a wstate" where
  "visit img msk elem nb st =
     (if \<not> msk nb then st
      else if outp st nb \<noteq> 0 then st
      else
        let a = agec st + 1 in
        \<lparr>heap = heappush \<lparr>hval = img nb, age = a, index = nb, source = source elem\<rparr> (heap st),
         outp = (outp st)(nb := outp st (index elem)),
         agec = a\<rparr>)"

text \<open>
  The flood runs while the heap has items.  \<open>None\<close> is the value of a run that does not
  end.
\<close>

partial_function (option) watershed_raveled ::
  "(pos \<Rightarrow> 'a::linorder) \<Rightarrow> (pos \<Rightarrow> bool) \<Rightarrow> 'a wstate \<Rightarrow> (pos \<Rightarrow> int) option" where
  "watershed_raveled img msk st =
     (case heap st of
        [] \<Rightarrow> Some (outp st)
      | elem # rest \<Rightarrow>
          watershed_raveled img msk
            (fold (visit img msk elem) (neighbors (index elem)) (st\<lparr>heap := rest\<rparr>)))"

text \<open>
  The entry point checks the shapes, clears the markers outside the mask
  (\<^verbatim>\<open>markers * mask\<close>), pushes the marker pixels in raveled order with age 0, floods, and
  returns the labels in the shape of the image.  Markers are taken in the shape of the
  image: markers of another shape, which \<^verbatim>\<open>numpy\<close> would first stretch to the shape of the
  mask where it can, count as a shape error here.
\<close>

declare watershed_raveled.simps [code]

definition marker_heap :: "(pos \<Rightarrow> 'a::linorder) \<Rightarrow> pos list \<Rightarrow> 'a heapitem list" where
  "marker_heap img locs =
     fold (\<lambda>p h. heappush \<lparr>hval = img p, age = 0, index = p, source = p\<rparr> h) locs []"

text \<open>The image padded with zeros, the mask padded with \<open>False\<close>, and \<^verbatim>\<open>markers * mask\<close>.\<close>

definition pixel :: "'a::zero ndarray \<Rightarrow> pos \<Rightarrow> 'a" where
  "pixel terr p = (case lookup terr p of Some v \<Rightarrow> v | None \<Rightarrow> 0)"

definition inside :: "bool ndarray \<Rightarrow> pos \<Rightarrow> bool" where
  "inside in_mask p = (lookup in_mask p = Some True)"

definition masked_markers :: "int ndarray \<Rightarrow> bool ndarray \<Rightarrow> pos \<Rightarrow> int" where
  "masked_markers markers in_mask p =
     (case lookup markers p of Some m \<Rightarrow> if inside in_mask p then m else 0 | None \<Rightarrow> 0)"

definition watershed ::
  "'a::{linorder,zero} ndarray \<Rightarrow> int ndarray \<Rightarrow> bool ndarray \<Rightarrow> (error + int ndarray) option" where
  "watershed terr markers in_mask =
     (if shape in_mask \<noteq> shape terr \<or> shape markers \<noteq> shape terr then Some (Inl ShapeMismatch)
      else
        let out0 = masked_markers markers in_mask;
            marker_locations = filter (\<lambda>p. out0 p \<noteq> 0) (indices (shape terr))
        in case watershed_raveled (pixel terr) (inside in_mask)
                  \<lparr>heap = marker_heap (pixel terr) marker_locations, outp = out0, agec = 1\<rparr> of
             None \<Rightarrow> None
           | Some out \<Rightarrow> Some (Inr (tabulate (shape terr) out)))"

section \<open>Watershed from boundary distances\<close>

text \<open>\<^verbatim>\<open>boundary_distances.max()\<close> raises on an array without elements.\<close>

definition amax :: "'a::linorder ndarray \<Rightarrow> error + 'a" where
  "amax a = (case data a of [] \<Rightarrow> Inl EmptyReduction | x # xs \<Rightarrow> Inr (fold max xs x))"

text \<open>
  The terrain handed to the watershed, \<^verbatim>\<open>boundary_distances.max() - boundary_distances\<close>.
  The subtraction is the one of the array's element type and is a parameter \<open>sub\<close>: exact
  subtraction for integers and for the real numbers, rounded subtraction for
  floating-point numbers.
\<close>

definition terrain :: "('a \<Rightarrow> 'a \<Rightarrow> 'a) \<Rightarrow> 'a::linorder ndarray \<Rightarrow> error + 'a ndarray" where
  "terrain sub boundary_distances =
     (case amax boundary_distances of
        Inl e \<Rightarrow> Inl e
      | Inr m \<Rightarrow> Inr (map_nd (sub m) boundary_distances))"

text \<open>
  The seed map is an array of 32-bit integers, the element type of the labels that
  \<^verbatim>\<open>scipy.ndimage.label\<close> returns (the notebook imports \<^verbatim>\<open>label\<close> for the body of
  \<^verbatim>\<open>find_local_maxima\<close>).  \<^verbatim>\<open>numpy\<close> adds in that type: a sum outside the range from
  \<open>-2\<^sup>3\<^sup>1\<close> to \<open>2\<^sup>3\<^sup>1 - 1\<close> wraps around.
\<close>

definition wrap32 :: "int \<Rightarrow> int" where
  "wrap32 x = (x + 2 ^ 31) mod 2 ^ 32 - 2 ^ 31"

text \<open>\<^verbatim>\<open>seeds[seeds != 0] += id_offset\<close>\<close>

definition offset_seeds :: "int \<Rightarrow> int ndarray \<Rightarrow> int ndarray" where
  "offset_seeds id_offset seeds =
     map_nd (\<lambda>s. if s \<noteq> 0 then wrap32 (s + id_offset) else s) seeds"

text \<open>
  The notebook leaves the body of \<^verbatim>\<open>find_local_maxima\<close> to the reader, so here the
  function that \<^verbatim>\<open>watershed_from_boundary_distance\<close> calls is a parameter \<open>find_seeds\<close>: it maps
  the field and the minimal seed distance to a seed map and a seed count.  The
  subtraction \<open>sub\<close> of the terrain is the other parameter.  An id offset outside the
  range of the 32-bit integers is refused by the in-place addition.
\<close>

definition watershed_from_boundary_distance ::
  "('a \<Rightarrow> 'a \<Rightarrow> 'a) \<Rightarrow> ('a ndarray \<Rightarrow> nat \<Rightarrow> int ndarray \<times> nat) \<Rightarrow>
   'a::{linorder,zero} ndarray \<Rightarrow> bool ndarray \<Rightarrow> int \<Rightarrow> nat \<Rightarrow> (error + ret) option" where
  "watershed_from_boundary_distance sub find_seeds boundary_distances inner_mask
       id_offset min_seed_distance =
     (case find_seeds boundary_distances min_seed_distance of
        (seeds, n) \<Rightarrow>
          if n = 0 then Some (Inr (RTuple (zeros (shape boundary_distances)) id_offset))
          else if id_offset < - (2 ^ 31) \<or> 2 ^ 31 \<le> id_offset then Some (Inl OverflowError)
          else
            let seeds' = offset_seeds id_offset seeds in
            (case terrain sub boundary_distances of
               Inl e \<Rightarrow> Some (Inl e)
             | Inr t \<Rightarrow>
                 (case watershed t seeds' inner_mask of
                    None \<Rightarrow> None
                  | Some (Inl e) \<Rightarrow> Some (Inl e)
                  | Some (Inr segmentation) \<Rightarrow> Some (Inr (RArray segmentation)))))"

text \<open>\<^verbatim>\<open>get_inner_mask(pred, threshold)\<close>\<close>

definition get_inner_mask :: "'a::linorder ndarray \<Rightarrow> 'a \<Rightarrow> bool ndarray" where
  "get_inner_mask pred threshold = map_nd (\<lambda>v. threshold < v) pred"

text \<open>The array part of either result.\<close>

fun segmentation_of :: "ret \<Rightarrow> int ndarray" where
  "segmentation_of (RTuple a _) = a"
| "segmentation_of (RArray a) = a"

text \<open>
  The written contract runs the watershed on the negated field, \<^verbatim>\<open>-boundary_distances\<close>; this is
  the terrain of that reading, to be compared with \<open>terrain\<close> above.
\<close>

definition negated :: "'a::uminus ndarray \<Rightarrow> 'a ndarray" where
  "negated boundary_distances = map_nd uminus boundary_distances"

section \<open>Floating-point subtraction\<close>

text \<open>
  \<^verbatim>\<open>numpy\<close> subtracts 64-bit floats as IEEE 754 prescribes: the exact difference is rounded
  to the nearest number with a 53-bit significand, ties to the even significand.  The model
  covers the finite range (differences below \<open>2 ^ 1024\<close> in magnitude); the least exponent is
  that of the subnormal numbers.
\<close>

definition round_half_even :: "real \<Rightarrow> int" where
  "round_half_even r =
     (let f = \<lfloor>r\<rfloor> in
      if r - of_int f < 1 / 2 then f
      else if 1 / 2 < r - of_int f then f + 1
      else if even f then f else f + 1)"

definition binary64 :: "real \<Rightarrow> real" where
  "binary64 x =
     (if x = 0 then 0
      else
        let e = max \<lfloor>log 2 \<bar>x\<bar>\<rfloor> (- 1022);
            ulp = 2 powr (of_int e - 52)
        in of_int (round_half_even (x / ulp)) * ulp)"

definition sub64 :: "real \<Rightarrow> real \<Rightarrow> real" where
  "sub64 x y = binary64 (x - y)"

section \<open>Signed distance transform: distances, resampling and squashing\<close>

text \<open>
  The rest of the loop body of \<^verbatim>\<open>compute_sdt\<close> and the two statements after the loop.  The
  distances and their resampling are taken in exact arithmetic: \<^verbatim>\<open>scipy\<close> computes them in
  64-bit floats, with rounding errors of a few units in the last place, which the model
  leaves out.  The \<^verbatim>\<open>tanh\<close> is modelled with its rounding, since the rounding decides whether
  the values \<open>-1\<close> and \<open>1\<close> are reached.
\<close>

text \<open>
  The squared Euclidean distance of two positions.  The coordinates are natural numbers,
  whose difference is cut off at 0: of the two differences one is 0.
\<close>

definition sq_distance :: "pos \<Rightarrow> pos \<Rightarrow> nat" where
  "sq_distance p q = sum_list (map2 (\<lambda>a b. (a - b)\<^sup>2 + (b - a)\<^sup>2) p q)"

fun least :: "nat list \<Rightarrow> nat" where
  "least [] = 0"
| "least [x] = x"
| "least (x # y # ys) = min x (least (y # ys))"

text \<open>
  \<^verbatim>\<open>scipy.ndimage.distance_transform_edt\<close>: the Euclidean distance of every entry to the
  nearest zero entry (a zero entry has distance 0).  Its documentation says nothing about
  an input without a zero entry.  The implementation returns distances there all the same:
  the nearest zero entry it reports is a position outside the array, and the distances are
  those to that position (in one dimension the position before the first entry, so that
  four entries get the distances 1, 2, 3 and 4).  These distances are the parameter \<open>far\<close>,
  a function of the shape and the position; what is proved about \<^verbatim>\<open>compute_sdt\<close> holds
  whatever they are.
\<close>

definition distance_transform_edt :: "(nat list \<Rightarrow> pos \<Rightarrow> real) \<Rightarrow> bool ndarray \<Rightarrow> real ndarray" where
  "distance_transform_edt far a =
     (let zs = filter (\<lambda>q. lookup a q = Some False) (indices (shape a))
      in tabulate (shape a)
           (\<lambda>p. if zs = [] then far (shape a) p
                else sqrt (real (least (map (sq_distance p) zs)))))"

text \<open>
  The distances of a one-dimensional input without a zero entry: those to the position
  before the first entry.
\<close>

definition before_first :: "nat list \<Rightarrow> pos \<Rightarrow> real" where
  "before_first sh p = real (p ! 0) + 1"

text \<open>
  \<^verbatim>\<open>map_coordinates(axis_distances, coordinates=coordinates, order=3)\<close>, with its defaults
  \<^verbatim>\<open>mode="constant"\<close> and \<^verbatim>\<open>prefilter=True\<close>.  The array is first turned into the
  coefficients of the cubic B-spline that interpolates it, mirrored at its first and at its
  last entry; then the spline is evaluated at the coordinates.  The coefficients \<open>c\<close> of a
  line \<open>f\<close> of \<open>n\<close> entries solve \<open>c[i-1] + 4 * c[i] + c[i+1] = 6 * f[i]\<close> with
  \<open>c[-1] = c[1]\<close> and \<open>c[n] = c[n-2]\<close>.  \<open>spline_tail\<close> solves these equations by
  elimination from the first row on: \<open>b\<close>, \<open>u\<close> and \<open>d\<close> are what is left of the row before,
  \<open>b * c[i-1] + u * c[i] = d\<close>.
\<close>

fun spline_tail :: "real \<Rightarrow> real \<Rightarrow> real \<Rightarrow> real list \<Rightarrow> real list" where
  "spline_tail b u d [] = []"
| "spline_tail b u d [f] = [(6 * f - 2 * d / b) / (4 - 2 * u / b)]"
| "spline_tail b u d (f # g # fs) =
     (let b' = 4 - u / b;
          d' = 6 * f - d / b;
          cs = spline_tail b' 1 d' (g # fs)
      in (d' - hd cs) / b' # cs)"

fun spline_coefficients :: "real list \<Rightarrow> real list" where
  "spline_coefficients [] = []"
| "spline_coefficients [f] = [f]"
| "spline_coefficients (f # g # fs) =
     (let cs = spline_tail 4 2 (6 * f) (g # fs) in (6 * f - 2 * hd cs) / 4 # cs)"

text \<open>The index of a coefficient outside the line, mirrored back into it.\<close>

definition reflect :: "nat \<Rightarrow> int \<Rightarrow> nat" where
  "reflect n j =
     (if n \<le> 1 then 0
      else if j < 0 then nat (- j)
      else if int n \<le> j then nat (2 * (int n - 1) - j)
      else nat j)"

text \<open>
  The cubic B-spline with coefficients \<open>c\<close> at the point \<open>i + 1/2\<close>: the four coefficients
  from \<open>i - 1\<close> to \<open>i + 2\<close> with the weights \<open>1/48\<close>, \<open>23/48\<close>, \<open>23/48\<close> and \<open>1/48\<close>.
\<close>

definition spline_half :: "real list \<Rightarrow> nat \<Rightarrow> real" where
  "spline_half c i =
     (c ! reflect (length c) (int i - 1) + 23 * c ! reflect (length c) (int i)
      + 23 * c ! reflect (length c) (int i + 1) + c ! reflect (length c) (int i + 2)) / 48"

text \<open>
  The coordinates are the integer positions along every axis but one, and along that axis
  the \<open>n\<close> points \<^verbatim>\<open>np.linspace(0.5, axis_distances.shape[a] - 1.5, labels.shape[a])\<close>.  The
  array of distances has one entry more along the axis than the labels, so these are the
  points \<open>0.5, 1.5, ...\<close>, one between every two neighbours.  At an integer coordinate the
  interpolating spline returns the entry of the array, so the resampling works on every
  line of the array along the axis by itself.
\<close>

definition resample_axis :: "nat \<Rightarrow> nat \<Rightarrow> real ndarray \<Rightarrow> real ndarray" where
  "resample_axis axis n a =
     tabulate ((shape a)[axis := n])
       (\<lambda>p. spline_half
              (spline_coefficients (map (\<lambda>j. the (lookup a (p[axis := j]))) [0..<shape a ! axis]))
              (p ! axis))"

text \<open>\<^verbatim>\<open>np.minimum(distances, sampled)\<close>\<close>

definition minimum_nd :: "real ndarray \<Rightarrow> real ndarray \<Rightarrow> real ndarray" where
  "minimum_nd a b = \<lparr>shape = shape a, data = map2 min (data a) (data b)\<rparr>"

text \<open>The array \<^verbatim>\<open>sampled\<close> of the iteration \<open>axis\<close>.\<close>

definition sdt_axis :: "(nat list \<Rightarrow> pos \<Rightarrow> real) \<Rightarrow> 'l ndarray \<Rightarrow> nat \<Rightarrow> real ndarray" where
  "sdt_axis far labels axis =
     resample_axis axis (shape labels ! axis)
       (distance_transform_edt far (sdt_bounds labels axis))"

text \<open>The iterations of the loop over the given axes, from the array \<^verbatim>\<open>distances\<close> on.\<close>

fun sdt_distances ::
  "(nat list \<Rightarrow> pos \<Rightarrow> real) \<Rightarrow> 'l ndarray \<Rightarrow> nat list \<Rightarrow> real ndarray \<Rightarrow> real ndarray" where
  "sdt_distances far labels [] distances = distances"
| "sdt_distances far labels (axis # axes) distances =
     sdt_distances far labels axes (minimum_nd distances (sdt_axis far labels axis))"

text \<open>\<^verbatim>\<open>np.tanh\<close> on a 64-bit float: the hyperbolic tangent, rounded.\<close>

definition tanh64 :: "real \<Rightarrow> real" where
  "tanh64 x = binary64 (tanh x)"

text \<open>\<^verbatim>\<open>distances[labels == 0] *= -1\<close>\<close>

definition flip_background :: "int ndarray \<Rightarrow> real ndarray \<Rightarrow> real ndarray" where
  "flip_background labels distances =
     \<lparr>shape = shape distances,
      data = map2 (\<lambda>l x. if l = 0 then x * (- 1) else x) (data labels) (data distances)\<rparr>"

text \<open>
  For labels without an axis (an array of dimension 0) the loop does not run, \<^verbatim>\<open>distances\<close>
  is a scalar, and the assignment \<^verbatim>\<open>distances[labels == 0] *= -1\<close> raises \<^verbatim>\<open>TypeError\<close>.
\<close>

datatype sdt_error = TypeError

text \<open>
  \<^verbatim>\<open>compute_sdt(labels, scale)\<close>.  The array \<^verbatim>\<open>distances\<close> starts out infinite everywhere, so
  after the iteration of axis 0 it is the array \<^verbatim>\<open>sampled\<close> of that axis; the other axes
  follow.
\<close>

definition compute_sdt ::
  "(nat list \<Rightarrow> pos \<Rightarrow> real) \<Rightarrow> int ndarray \<Rightarrow> real \<Rightarrow> sdt_error + real ndarray" where
  "compute_sdt far labels scale =
     (case shape labels of
        [] \<Rightarrow> Inl TypeError
      | _ \<Rightarrow>
         Inr (flip_background labels
                (map_nd (\<lambda>x. tanh64 (x / scale))
                   (sdt_distances far labels [1..<length (shape labels)] (sdt_axis far labels 0)))))"

section \<open>Example inputs\<close>

text \<open>
  A field of two rows and three columns with one pixel outside the mask, a stand-in for
  \<^verbatim>\<open>find_local_maxima\<close> that reports two seeds on it, and one that reports none.
\<close>

definition ex_field :: "real ndarray" where
  "ex_field = \<lparr>shape = [2, 3], data = [3, 1, 0, 0, 2, 5]\<rparr>"

definition ex_mask :: "bool ndarray" where
  "ex_mask = \<lparr>shape = [2, 3], data = [True, True, False, True, True, True]\<rparr>"

definition ex_seeds :: "int ndarray" where
  "ex_seeds = \<lparr>shape = [2, 3], data = [1, 0, 0, 0, 0, 2]\<rparr>"

definition ex_find :: "real ndarray \<Rightarrow> nat \<Rightarrow> int ndarray \<times> nat" where
  "ex_find d m = (\<lparr>shape = [2, 3], data = [1, 0, 0, 0, 0, 2]\<rparr>, 2)"

definition ex_none :: "real ndarray \<Rightarrow> nat \<Rightarrow> int ndarray \<times> nat" where
  "ex_none d m = (zeros (shape d), 0)"

definition ex_segmentation :: "int ndarray" where
  "ex_segmentation = \<lparr>shape = [2, 3], data = [11, 11, 0, 11, 12, 12]\<rparr>"

text \<open>
  A field of three pixels in a row whose middle pixel is outside the mask, and a stand-in
  for \<^verbatim>\<open>find_local_maxima\<close> that reports the one seed at its maximum.
\<close>

definition gap_field :: "real ndarray" where
  "gap_field = \<lparr>shape = [3], data = [5, 0, 1]\<rparr>"

definition gap_mask :: "bool ndarray" where
  "gap_mask = \<lparr>shape = [3], data = [True, False, True]\<rparr>"

definition gap_find :: "real ndarray \<Rightarrow> nat \<Rightarrow> int ndarray \<times> nat" where
  "gap_find d m = (\<lparr>shape = [3], data = [1, 0, 0]\<rparr>, 1)"

text \<open>A one-dimensional field of two unit impulses four pixels apart.\<close>

definition impulse_field :: "real ndarray" where
  "impulse_field = \<lparr>shape = [5], data = [1, 0, 0, 0, 1]\<rparr>"

text \<open>
  A field with values far below the spacing of 64-bit floats near 1, its terrain in
  64-bit floats, and two seeds at its ends.
\<close>

definition tiny_field :: "real ndarray" where
  "tiny_field = \<lparr>shape = [5], data = [1, 1 / 2 ^ 59, 1 / 2 ^ 60, 0, 1 / 2 ^ 61]\<rparr>"

definition tiny_rounded :: "real ndarray" where
  "tiny_rounded = \<lparr>shape = [5], data = [0, 1, 1, 1, 1]\<rparr>"

definition tiny_seeds :: "int ndarray" where
  "tiny_seeds = \<lparr>shape = [5], data = [1, 0, 0, 0, 2]\<rparr>"

definition tiny_mask :: "bool ndarray" where
  "tiny_mask = \<lparr>shape = [5], data = [True, True, True, True, True]\<rparr>"

text \<open>
  Label masks of one row: two pixels with two labels; nine pixels with three labels, the
  middle one a single pixel wide; three pixels with one label; and a mask without an axis.
\<close>

definition two_labels :: "int ndarray" where
  "two_labels = \<lparr>shape = [2], data = [1, 2]\<rparr>"

definition uniform_labels :: "int ndarray" where
  "uniform_labels = \<lparr>shape = [3], data = [7, 7, 7]\<rparr>"

definition scalar_label :: "int ndarray" where
  "scalar_label = \<lparr>shape = [], data = [0]\<rparr>"

definition nine_labels :: "int ndarray" where
  "nine_labels = \<lparr>shape = [9], data = [1, 1, 1, 1, 2, 3, 3, 3, 3]\<rparr>"

section \<open>Invariants of the flood\<close>

text \<open>Every item of the heap sits on a labelled pixel.\<close>

definition labelled_heap :: "'a wstate \<Rightarrow> bool" where
  "labelled_heap st = (\<forall>e\<in>set (heap st). outp st (index e) \<noteq> 0)"

text \<open>
  The pixels the flood can still label, and the quantity that decreases with every item
  taken from the heap.
\<close>

definition unlabelled :: "(pos \<Rightarrow> bool) \<Rightarrow> 'a wstate \<Rightarrow> pos set" where
  "unlabelled msk st = {p. msk p \<and> outp st p = 0}"

definition flood_measure :: "(pos \<Rightarrow> bool) \<Rightarrow> 'a wstate \<Rightarrow> nat" where
  "flood_measure msk st = 2 * card (unlabelled msk st) + length (heap st)"

text \<open>
  How the labels may change during a flood: only a pixel inside the mask that had no
  label changes, and it receives a label that was already present.
\<close>

definition evolves :: "(pos \<Rightarrow> bool) \<Rightarrow> (pos \<Rightarrow> int) \<Rightarrow> (pos \<Rightarrow> int) \<Rightarrow> bool" where
  "evolves msk o1 o2 =
     (\<forall>p. o2 p \<noteq> o1 p \<longrightarrow> msk p \<and> o1 p = 0 \<and> (\<exists>q. o1 q \<noteq> 0 \<and> o2 p = o1 q))"

text \<open>
  Two terrains are order-equivalent on the mask when they compare any two pixels of the
  mask the same way; two heaps and two states of floods over such terrains correspond
  when they agree on everything but the terrain heights.
\<close>

definition order_equivalent :: "(pos \<Rightarrow> bool) \<Rightarrow> (pos \<Rightarrow> 'a::linorder) \<Rightarrow> (pos \<Rightarrow> 'a) \<Rightarrow> bool" where
  "order_equivalent msk f g =
     (\<forall>p q. msk p \<and> msk q \<longrightarrow> (f p < f q \<longleftrightarrow> g p < g q) \<and> (f p = f q \<longleftrightarrow> g p = g q))"

definition same_item ::
  "(pos \<Rightarrow> bool) \<Rightarrow> (pos \<Rightarrow> 'a) \<Rightarrow> (pos \<Rightarrow> 'a) \<Rightarrow> 'a heapitem \<Rightarrow> 'a heapitem \<Rightarrow> bool" where
  "same_item msk f g a b =
     (age a = age b \<and> index a = index b \<and> source a = source b
      \<and> hval a = f (index a) \<and> hval b = g (index b) \<and> msk (index a))"

definition same_state ::
  "(pos \<Rightarrow> bool) \<Rightarrow> (pos \<Rightarrow> 'a) \<Rightarrow> (pos \<Rightarrow> 'a) \<Rightarrow> 'a wstate \<Rightarrow> 'a wstate \<Rightarrow> bool" where
  "same_state msk f g s t =
     (list_all2 (same_item msk f g) (heap s) (heap t) \<and> outp s = outp t \<and> agec s = agec t)"

section \<open>Connected inside the mask\<close>

text \<open>
  One step of the flood leads from a pixel inside the mask to a neighbour inside the mask;
  \<open>connected_inside in_mask q p\<close> says that such steps lead from \<open>q\<close> to \<open>p\<close>.  A pixel is
  \<open>seeded\<close> when it lies inside the mask and carries a marker other than 0.
\<close>

definition mask_steps :: "(pos \<Rightarrow> bool) \<Rightarrow> (pos \<times> pos) set" where
  "mask_steps msk = {(p, q). msk p \<and> msk q \<and> q \<in> set (neighbors p)}"

definition connected_inside :: "bool ndarray \<Rightarrow> pos \<Rightarrow> pos \<Rightarrow> bool" where
  "connected_inside in_mask q p = ((q, p) \<in> (mask_steps (inside in_mask))\<^sup>*)"

text \<open>
  Every label has a source: a marker of the same label from which steps inside the mask
  lead to the pixel.
\<close>

definition sourced :: "(pos \<Rightarrow> bool) \<Rightarrow> (pos \<Rightarrow> int) \<Rightarrow> (pos \<Rightarrow> int) \<Rightarrow> bool" where
  "sourced msk o0 out =
     (\<forall>p. out p \<noteq> 0 \<longrightarrow> msk p \<and> (\<exists>q. o0 q \<noteq> 0 \<and> out p = o0 q \<and> (q, p) \<in> (mask_steps msk)\<^sup>*))"

text \<open>
  A labelled pixel that is not waiting in the heap, nor the pixel \<open>c\<close> whose neighbours are
  being visited, has handed its label on: its neighbours inside the mask are labelled.
\<close>

definition settled :: "(pos \<Rightarrow> bool) \<Rightarrow> pos set \<Rightarrow> 'a wstate \<Rightarrow> bool" where
  "settled msk busy st =
     (\<forall>p. outp st p \<noteq> 0 \<and> p \<notin> busy \<and> p \<notin> index ` set (heap st) \<longrightarrow>
          (\<forall>q\<in>set (neighbors p). msk q \<longrightarrow> outp st q \<noteq> 0))"

section \<open>The equations of the interpolating spline\<close>

text \<open>
  The rows of the equations from a given coefficient \<open>x\<close> of the row before on; the last
  row mirrors \<open>x\<close>.  \<open>interpolates c f\<close> says that \<open>c\<close> solves the equations of the line \<open>f\<close>.
\<close>

fun spline_rows :: "real \<Rightarrow> real list \<Rightarrow> real list \<Rightarrow> bool" where
  "spline_rows x [c] [f] = (x + 4 * c + x = 6 * f)"
| "spline_rows x (c # c' # cs) (f # f' # fs) =
     (x + 4 * c + c' = 6 * f \<and> spline_rows c (c' # cs) (f' # fs))"
| "spline_rows x _ _ = False"

definition interpolates :: "real list \<Rightarrow> real list \<Rightarrow> bool" where
  "interpolates c f =
     (case (c, f) of
        ([], []) \<Rightarrow> True
      | ([c0], [f0]) \<Rightarrow> c0 = f0
      | (c0 # c1 # cs, f0 # f1 # fs) \<Rightarrow>
          c1 + 4 * c0 + c1 = 6 * f0 \<and> spline_rows c0 (c1 # cs) (f1 # fs)
      | _ \<Rightarrow> False)"

section \<open>Positions and lookups\<close>

lemma in_indices_iff: "p \<in> set (indices sh) \<longleftrightarrow> list_all2 (<) p sh"
  by (induction sh arbitrary: p) (auto simp: list_all2_Cons2 image_iff)

lemma valid_iff:
  "p \<in> set (indices sh) \<longleftrightarrow> length p = length sh \<and> (\<forall>k<length sh. p ! k < sh ! k)"
  by (auto simp: in_indices_iff list_all2_conv_all_nth)

lemma length_indices: "p \<in> set (indices sh) \<Longrightarrow> length p = length sh"
  by (simp add: in_indices_iff list_all2_lengthD)

lemma distinct_product:
  "distinct ys \<Longrightarrow> distinct (concat (map (\<lambda>i. map ((#) i) ys) [0..<n]))"
  by (induction n) (auto simp: distinct_map)

lemma distinct_indices: "distinct (indices sh)"
  by (induction sh) (simp_all add: distinct_product)

lemma lookup_tabulate:
  "lookup (tabulate sh f) p = (if p \<in> set (indices sh) then Some (f p) else None)"
  by (simp add: lookup_def tabulate_def map_of_zip_map)

lemma lookup_valid: "lookup a p = Some v \<Longrightarrow> p \<in> set (indices (shape a))"
  unfolding lookup_def by (auto dest!: map_of_SomeD set_zip_leftD)

lemma lookup_wellformed:
  "wellformed a \<Longrightarrow> p \<in> set (indices (shape a)) \<Longrightarrow> \<exists>v. lookup a p = Some v \<and> v \<in> set (data a)"
  unfolding lookup_def wellformed_def
  by (metis map_of_zip_is_Some map_of_SomeD set_zip_rightD)

lemma lookup_map_nd: "lookup (map_nd f a) p = map_option f (lookup a p)"
  by (simp add: lookup_def map_nd_def zip_map2 map_of_map)

lemma zeros_tabulate: "zeros sh = tabulate sh (\<lambda>_. 0)"
  by (simp add: zeros_def tabulate_def map_replicate_const)

lemma wellformed_data:
  assumes "wellformed a"
  shows "data a = map (\<lambda>p. the (lookup a p)) (indices (shape a))"
proof (rule nth_equalityI)
  show "length (data a) = length (map (\<lambda>p. the (lookup a p)) (indices (shape a)))"
    using assms by (simp add: wellformed_def)
next
  fix i assume "i < length (data a)"
  then show "data a ! i = map (\<lambda>p. the (lookup a p)) (indices (shape a)) ! i"
    using assms map_of_zip_nth[of "indices (shape a)" "data a" i]
    by (simp add: wellformed_def lookup_def distinct_indices)
qed

lemma wellformed_tabulate: "wellformed a \<Longrightarrow> a = tabulate (shape a) (\<lambda>p. the (lookup a p))"
  using wellformed_data[of a] by (cases a) (simp add: tabulate_def)

lemma equal_nd_tabulate:
  "equal_nd (tabulate sh f) (tabulate sh g) = tabulate sh (\<lambda>p. f p = g p)"
  by (simp add: equal_nd_def tabulate_def zip_map_map map_zip_map
        zip_same_conv_map)

section \<open>The padded boundary indicator\<close>

lemma sdt_bounds_unfold:
  "axis < length (shape labels) \<Longrightarrow> sdt_bounds labels axis =
     tabulate ((shape labels)[axis := shape labels ! axis - 1 + 2])
       (\<lambda>p. if p ! axis = 0 \<or> p ! axis = shape labels ! axis - 1 + 1 then True
            else the (lookup (tabulate ((shape labels)[axis := shape labels ! axis - 1])
                   (\<lambda>q. the (lookup labels (q[axis := q ! axis + 1])) = the (lookup labels q)))
                 (p[axis := p ! axis - 1])))"
  by (simp add: sdt_bounds_def pad_axis_def drop_first_def drop_last_def equal_nd_tabulate)
     (simp add: tabulate_def)

lemma sdt_bounds_entry:
  assumes wf: "wellformed labels" and ax: "axis < length (shape labels)"
    and p: "p \<in> set (indices ((shape labels)[axis := shape labels ! axis - 1 + 2]))"
  shows "lookup (sdt_bounds labels axis) p =
           Some (if p ! axis = 0 \<or> p ! axis = shape labels ! axis - 1 + 1 then True
                 else lookup labels p = lookup labels (p[axis := p ! axis - 1]))"
proof (cases "p ! axis = 0 \<or> p ! axis = shape labels ! axis - 1 + 1")
  case True
  then show ?thesis
    using p by (simp add: sdt_bounds_unfold[OF ax] lookup_tabulate)
next
  case False
  let ?sh = "shape labels" and ?n = "shape labels ! axis"
  let ?q = "p[axis := p ! axis - 1]"
  from p have len: "length p = length ?sh"
    and bound: "\<forall>k<length ?sh. p ! k < (?sh[axis := ?n - 1 + 2]) ! k"
    by (simp_all add: valid_iff)
  from bound ax have pa: "p ! axis < ?n - 1 + 2" by auto
  with False have inner: "0 < p ! axis" "p ! axis < ?n" by auto
  have other: "p ! k < ?sh ! k" if "k < length ?sh" "k \<noteq> axis" for k
    using bound that by auto
  have pv: "p \<in> set (indices ?sh)"
    unfolding valid_iff using len inner other by blast
  have qv: "?q \<in> set (indices ?sh)"
    unfolding valid_iff using len inner other ax
    by (auto simp: nth_list_update)
  have q1: "?q \<in> set (indices (?sh[axis := ?n - 1]))"
    unfolding valid_iff using len inner other ax
    by (auto simp: nth_list_update)
  have upd: "p[axis := Suc (p[axis := p ! axis - Suc 0] ! axis)] = p"
    using inner len ax by (simp add: list_update_same_conv)
  from lookup_wellformed[OF wf pv] lookup_wellformed[OF wf qv]
  obtain x y where xy: "lookup labels p = Some x" "lookup labels ?q = Some y"
    by blast
  show ?thesis
    using False p q1 xy by (simp add: sdt_bounds_unfold[OF ax] lookup_tabulate upd)
qed

lemma shape_sdt_bounds:
  "axis < length (shape labels) \<Longrightarrow>
   shape (sdt_bounds labels axis) = (shape labels)[axis := shape labels ! axis - 1 + 2]"
  by (simp add: sdt_bounds_def pad_axis_def drop_first_def drop_last_def equal_nd_def tabulate_def)

text \<open>
  Claim C3, as amended.  In every iteration of the loop of \<^verbatim>\<open>compute_sdt\<close> the indicator
  that reaches the distance transform has the shape of the labels with one more entry
  along the axis.  Its entries at both ends of the axis are \<open>True\<close>, the value the comparison
  gives for equal labels; every entry in between tells whether the two labels next to it
  along the axis are equal.  The border of the image therefore adds no boundary, and for
  labels that are all the same the indicator is \<open>True\<close> throughout: the distance transform
  receives no zero entry to measure distances to.
\<close>

theorem sdt_bounds_padding:
  assumes "wellformed labels" and "axis < length (shape labels)"
  shows "shape (sdt_bounds labels axis) = (shape labels)[axis := shape labels ! axis - 1 + 2]
       \<and> (\<forall>p\<in>set (indices (shape (sdt_bounds labels axis))).
             lookup (sdt_bounds labels axis) p =
               Some (if p ! axis = 0 \<or> p ! axis = shape labels ! axis - 1 + 1 then True
                     else lookup labels p = lookup labels (p[axis := p ! axis - 1])))
       \<and> ((\<exists>c. set (data labels) \<subseteq> {c}) \<longrightarrow> set (data (sdt_bounds labels axis)) \<subseteq> {True})"
proof (intro conjI ballI impI)
  show "shape (sdt_bounds labels axis) = (shape labels)[axis := shape labels ! axis - 1 + 2]"
    by (rule shape_sdt_bounds[OF assms(2)])
next
  fix p assume "p \<in> set (indices (shape (sdt_bounds labels axis)))"
  then show "lookup (sdt_bounds labels axis) p =
               Some (if p ! axis = 0 \<or> p ! axis = shape labels ! axis - 1 + 1 then True
                     else lookup labels p = lookup labels (p[axis := p ! axis - 1]))"
    using sdt_bounds_entry[OF assms] by (simp add: shape_sdt_bounds[OF assms(2)])
next
  assume "\<exists>c. set (data labels) \<subseteq> {c}"
  then obtain c where c: "set (data labels) \<subseteq> {c}" by blast
  have same: "lookup labels p = Some x \<Longrightarrow> x = c" for p x
    using c unfolding lookup_def by (auto dest!: map_of_SomeD set_zip_rightD)
  show "set (data (sdt_bounds labels axis)) \<subseteq> {True}"
  proof
    fix b assume "b \<in> set (data (sdt_bounds labels axis))"
    then obtain p where p: "p \<in> set (indices (shape (sdt_bounds labels axis)))"
      and b: "b = the (lookup (sdt_bounds labels axis) p)"
      by (auto simp: sdt_bounds_unfold[OF assms(2)] tabulate_def lookup_tabulate[unfolded tabulate_def])
    from p have p': "p \<in> set (indices ((shape labels)[axis := shape labels ! axis - 1 + 2]))"
      by (simp add: shape_sdt_bounds[OF assms(2)])
    show "b \<in> {True}"
    proof (cases "p ! axis = 0 \<or> p ! axis = shape labels ! axis - 1 + 1")
      case True
      then show ?thesis
        using b sdt_bounds_entry[OF assms p'] by simp
    next
      case False
      let ?q = "p[axis := p ! axis - 1]"
      from p' have len: "length p = length (shape labels)"
        and bound: "\<forall>k<length (shape labels). p ! k < ((shape labels)[axis := shape labels ! axis - 1 + 2]) ! k"
        by (simp_all add: valid_iff)
      from bound assms(2) have "p ! axis < shape labels ! axis - 1 + 2" by auto
      with False have inner: "0 < p ! axis" "p ! axis < shape labels ! axis" by auto
      have other: "p ! k < shape labels ! k" if "k < length (shape labels)" "k \<noteq> axis" for k
        using bound that by auto
      have pv: "p \<in> set (indices (shape labels))"
        unfolding valid_iff using len inner other by blast
      have qv: "?q \<in> set (indices (shape labels))"
        unfolding valid_iff using len inner other assms(2)
        by (auto simp: nth_list_update)
      from lookup_wellformed[OF assms(1) pv] lookup_wellformed[OF assms(1) qv] same
      have "lookup labels p = lookup labels ?q"
        by (metis)
      then show ?thesis
        using b False sdt_bounds_entry[OF assms p'] by simp
    qed
  qed
qed

theorem sdt_bounds_padding_witness:
  "wellformed \<lparr>shape = [2, 3], data = [7, 7, 1, 0, 7, 1 :: int]\<rparr> \<and> (1::nat) < length [2, 3 :: nat]
   \<and> shape (sdt_bounds \<lparr>shape = [2, 3], data = [7, 7, 1, 0, 7, 1 :: int]\<rparr> 1) = [2, 4]
   \<and> lookup (sdt_bounds \<lparr>shape = [2, 3], data = [7, 7, 1, 0, 7, 1 :: int]\<rparr> 1) [0, 0] = Some True
   \<and> lookup (sdt_bounds \<lparr>shape = [2, 3], data = [7, 7, 1, 0, 7, 1 :: int]\<rparr> 1) [0, 2] = Some False
   \<and> lookup (sdt_bounds \<lparr>shape = [2, 3], data = [7, 7, 1, 0, 7, 1 :: int]\<rparr> 1) [0, 3] = Some True"
proof -
  let ?l = "\<lparr>shape = [2, 3], data = [7, 7, 1, 0, 7, 1 :: int]\<rparr>"
  have wf: "wellformed ?l" by (simp add: wellformed_def upt_rec)
  have ax: "1 < length (shape ?l)" by simp
  note t = sdt_bounds_padding[OF wf ax]
  have sh: "shape (sdt_bounds ?l 1) = [2, 4]"
    using t by simp
  have v: "[0, 0] \<in> set (indices [2, 4])" "[0, 2] \<in> set (indices [2, 4])" "[0, 3] \<in> set (indices [2, 4])"
    by code_simp+
  have l: "lookup ?l [0, 2] = Some 1" "lookup ?l [0, 1] = Some 7"
    by (simp_all add: lookup_def upt_rec)
  from t sh v have e: "lookup (sdt_bounds ?l 1) p =
               Some (if p ! 1 = 0 \<or> p ! 1 = shape ?l ! 1 - 1 + 1 then True
                     else lookup ?l p = lookup ?l (p[1 := p ! 1 - 1]))"
    if "p \<in> set (indices [2, 4])" for p
    using that by simp
  show ?thesis
    using wf sh e[OF v(1)] e[OF v(2)] e[OF v(3)] l by simp
qed

text \<open>
  Claim C3 as stated fails: the padding is not the value that marks a boundary.  For the
  labels \<open>[1, 2]\<close> the only boundary, between the two pixels, is the entry \<open>False\<close>, and the
  padded entries are \<open>True\<close>; for the uniform labels \<open>[7, 7, 7]\<close> no entry is \<open>False\<close>.
\<close>

theorem edge_padding_counterexample:
  "data (sdt_bounds \<lparr>shape = [2], data = [1, 2 :: int]\<rparr> 0) = [True, False, True]
   \<and> data (sdt_bounds \<lparr>shape = [3], data = [7, 7, 7 :: int]\<rparr> 0) = [True, True, True, True]"
  by code_simp

section \<open>Regions of local maxima\<close>

lemma in_neighbors_iff:
  "q \<in> set (neighbors p) \<longleftrightarrow>
     (\<exists>k<length p. (0 < p ! k \<and> q = p[k := p ! k - 1]) \<or> q = p[k := p ! k + 1])"
  by (auto simp: neighbors_def)

lemma neighbors_sym:
  assumes "q \<in> set (neighbors p)"
  shows "p \<in> set (neighbors q)"
proof -
  from assms obtain k where k: "k < length p"
    and c: "(0 < p ! k \<and> q = p[k := p ! k - 1]) \<or> q = p[k := p ! k + 1]"
    unfolding in_neighbors_iff by blast
  from c show ?thesis
  proof
    assume a: "0 < p ! k \<and> q = p[k := p ! k - 1]"
    then have "p = q[k := q ! k + 1]" "k < length q"
      using k by (simp_all add: list_update_same_conv)
    then show ?thesis unfolding in_neighbors_iff by blast
  next
    assume a: "q = p[k := p ! k + 1]"
    then have "p = q[k := q ! k - 1]" "k < length q" "0 < q ! k"
      using k by (simp_all add: list_update_same_conv)
    then show ?thesis unfolding in_neighbors_iff by blast
  qed
qed

lemma set_region_edges:
  "set (region_edges cands) = {(p, q). p \<in> set cands \<and> q \<in> set cands \<and> q \<in> set (neighbors p)}"
  by (auto simp: region_edges_def)

lemma sym_region_edges: "sym (set (region_edges cands))"
  by (auto simp: set_region_edges sym_def dest: neighbors_sym)

lemma same_region_refl: "same_region cands p p"
  by (simp add: same_region_def)

lemma same_region_sym: "same_region cands p q \<Longrightarrow> same_region cands q p"
  unfolding same_region_def using sym_trancl[OF sym_region_edges, of cands]
  by (auto simp: sym_def)

lemma same_region_trans:
  "same_region cands p q \<Longrightarrow> same_region cands q r \<Longrightarrow> same_region cands p r"
  unfolding same_region_def by (auto intro: trancl_trans)

lemma same_region_cong:
  "same_region cands p q \<Longrightarrow> same_region cands r p = same_region cands r q"
  by (meson same_region_sym same_region_trans)

lemma region_root_cong:
  "same_region cands p q \<Longrightarrow> region_root cands p = region_root cands q"
  unfolding region_root_def by (simp add: same_region_cong)

lemma region_root_exists:
  assumes "p \<in> set cands"
  shows "\<exists>r. region_root cands p = Some r \<and> r \<in> set cands \<and> same_region cands r p"
proof -
  have "\<exists>q\<in>set cands. same_region cands q p"
    using assms same_region_refl by blast
  then obtain r where "find (\<lambda>q. same_region cands q p) cands = Some r"
    by (metis find_None_iff option.exhaust)
  then show ?thesis
    unfolding region_root_def by (auto simp: find_Some_iff)
qed

lemma region_root_is_root:
  assumes "region_root cands p = Some r"
  shows "r \<in> set (roots cands)" and "same_region cands r p"
proof -
  from assms have r: "r \<in> set cands" "same_region cands r p"
    unfolding region_root_def by (auto simp: find_Some_iff)
  then show "same_region cands r p" by simp
  from region_root_cong[OF r(2)] assms have "region_root cands r = Some r" by simp
  with r(1) show "r \<in> set (roots cands)" by (simp add: roots_def)
qed

lemma index_of_member:
  "r \<in> set xs \<Longrightarrow> length (takeWhile (\<lambda>q. q \<noteq> r) xs) < length xs
     \<and> xs ! length (takeWhile (\<lambda>q. q \<noteq> r) xs) = r"
  by (induction xs) auto

lemma seed_id_candidate:
  assumes "p \<in> set cands"
  shows "\<exists>r. region_root cands p = Some r \<and> r \<in> set (roots cands) \<and> same_region cands r p
           \<and> seed_id cands p = int (length (takeWhile (\<lambda>q. q \<noteq> r) (roots cands))) + 1"
proof -
  from region_root_exists[OF assms] obtain r where r: "region_root cands p = Some r" by blast
  with region_root_is_root[OF r] assms show ?thesis
    by (simp add: seed_id_def)
qed

lemma seed_id_other: "p \<notin> set cands \<Longrightarrow> seed_id cands p = 0"
  by (simp add: seed_id_def split: option.splits)

lemma seed_id_range:
  assumes "p \<in> set cands"
  shows "1 \<le> seed_id cands p \<and> seed_id cands p \<le> int (length (roots cands))"
proof -
  from seed_id_candidate[OF assms] obtain r where r: "r \<in> set (roots cands)"
    and s: "seed_id cands p = int (length (takeWhile (\<lambda>q. q \<noteq> r) (roots cands))) + 1"
    by blast
  from index_of_member[OF r] s show ?thesis by simp
qed

lemma seed_id_eq_iff:
  assumes "p \<in> set cands" and "q \<in> set cands"
  shows "seed_id cands p = seed_id cands q \<longleftrightarrow> same_region cands p q"
proof
  assume "same_region cands p q"
  from region_root_cong[OF this] assms show "seed_id cands p = seed_id cands q"
    by (simp add: seed_id_def split: option.splits)
next
  assume e: "seed_id cands p = seed_id cands q"
  from seed_id_candidate[OF assms(1)] obtain r where r: "r \<in> set (roots cands)"
    "same_region cands r p"
    "seed_id cands p = int (length (takeWhile (\<lambda>q. q \<noteq> r) (roots cands))) + 1"
    by blast
  from seed_id_candidate[OF assms(2)] obtain r' where r': "r' \<in> set (roots cands)"
    "same_region cands r' q"
    "seed_id cands q = int (length (takeWhile (\<lambda>q. q \<noteq> r') (roots cands))) + 1"
    by blast
  from e r(3) r'(3) have "length (takeWhile (\<lambda>q. q \<noteq> r) (roots cands))
      = length (takeWhile (\<lambda>q. q \<noteq> r') (roots cands))" by simp
  with index_of_member[OF r(1)] index_of_member[OF r'(1)] have "r = r'" by metis
  with r(2) r'(2) show "same_region cands p q"
    by (meson same_region_sym same_region_trans)
qed

lemma count_regions:
  assumes "distinct cands"
  shows "length (roots cands) = card ((\<lambda>p. {q. same_region cands p q}) ` set cands)"
proof -
  let ?cls = "\<lambda>p. {q. same_region cands p q}"
  have d: "distinct (roots cands)"
    using assms by (simp add: roots_def)
  have sub: "set (roots cands) \<subseteq> set cands"
    by (auto simp: roots_def)
  have img: "?cls ` set cands = ?cls ` set (roots cands)"
  proof
    show "?cls ` set (roots cands) \<subseteq> ?cls ` set cands" using sub by blast
    show "?cls ` set cands \<subseteq> ?cls ` set (roots cands)"
    proof
      fix c assume "c \<in> ?cls ` set cands"
      then obtain p where p: "p \<in> set cands" "c = ?cls p" by blast
      from seed_id_candidate[OF p(1)] obtain r where r: "r \<in> set (roots cands)"
        "same_region cands r p" by blast
      have "?cls p = ?cls r"
        using r(2) by (auto intro: same_region_trans same_region_sym)
      with p(2) r(1) show "c \<in> ?cls ` set (roots cands)" by blast
    qed
  qed
  have inj: "inj_on ?cls (set (roots cands))"
  proof (rule inj_onI)
    fix r r' assume r: "r \<in> set (roots cands)" "r' \<in> set (roots cands)" and e: "?cls r = ?cls r'"
    have "r' \<in> ?cls r'" by (simp add: same_region_refl)
    with e have "same_region cands r r'" by auto
    from region_root_cong[OF this] r show "r = r'"
      by (simp add: roots_def)
  qed
  from card_image[OF inj] img distinct_card[OF d] show ?thesis by simp
qed

lemma fold_max_eq_iff:
  fixes x :: "'a::linorder"
  shows "fold max xs x = x \<longleftrightarrow> (\<forall>y\<in>set xs. y \<le> x)"
proof -
  have "fold max xs x = Max (set (x # xs))"
    by (rule Max.set_eq_fold[symmetric])
  moreover have "Max (insert x (set xs)) = x \<longleftrightarrow> (\<forall>y\<in>set xs. y \<le> x)"
    by (metis List.finite_set Max_ge Max_eqI finite_insert insertCI insertE order_refl)
  ultimately show ?thesis by simp
qed

lemma window_valid: "q \<in> set (window sh sz p) \<Longrightarrow> q \<in> set (indices sh)"
  by (simp add: window_def)

lemma in_candidates_iff:
  assumes wf: "wellformed d"
  shows "p \<in> set (candidates d sz) \<longleftrightarrow>
           p \<in> set (indices (shape d))
         \<and> (\<forall>q\<in>set (window (shape d) sz p). the (lookup d q) \<le> the (lookup d p))"
proof -
  have "equal_nd (maximum_filter d sz) d
      = tabulate (shape d)
          (\<lambda>p. fold max (map (\<lambda>q. the (lookup d q)) (window (shape d) sz p)) (the (lookup d p))
               = the (lookup d p))"
    unfolding maximum_filter_def
    by (subst (3) wellformed_tabulate[OF wf]) (rule equal_nd_tabulate)
  then show ?thesis
    by (auto simp: candidates_def lookup_tabulate fold_max_eq_iff)
qed

lemma impulse_candidates:
  fixes d :: "'a::linordered_idom ndarray"
  assumes wf: "wellformed d" and imp: "two_impulses d a b" and p: "p \<in> set (indices (shape d))"
  shows "p \<in> set (candidates d sz) \<longleftrightarrow>
           p = a \<or> p = b \<or> (a \<notin> set (window (shape d) sz p) \<and> b \<notin> set (window (shape d) sz p))"
proof -
  have val: "the (lookup d q) = (if q = a \<or> q = b then 1 else 0)"
    if "q \<in> set (indices (shape d))" for q
    using imp that by (auto simp: two_impulses_def)
  have ab: "a \<in> set (indices (shape d))" "b \<in> set (indices (shape d))"
    using imp by (auto simp: two_impulses_def dest: lookup_valid)
  show ?thesis
  proof (cases "p = a \<or> p = b")
    case True
    then have "\<forall>q\<in>set (window (shape d) sz p). the (lookup d q) \<le> the (lookup d p)"
      using val p window_valid by (auto simp: val)
    with True p show ?thesis by (auto simp: in_candidates_iff[OF wf])
  next
    case False
    have "(\<forall>q\<in>set (window (shape d) sz p). the (lookup d q) \<le> the (lookup d p))
        \<longleftrightarrow> a \<notin> set (window (shape d) sz p) \<and> b \<notin> set (window (shape d) sz p)"
    proof
      assume h: "\<forall>q\<in>set (window (shape d) sz p). the (lookup d q) \<le> the (lookup d p)"
      show "a \<notin> set (window (shape d) sz p) \<and> b \<notin> set (window (shape d) sz p)"
      proof (rule ccontr)
        assume "\<not> ?thesis"
        then obtain q where q: "q \<in> set (window (shape d) sz p)" "q = a \<or> q = b" by blast
        with h have "the (lookup d q) \<le> the (lookup d p)" by blast
        moreover have "the (lookup d q) = 1" using q ab val by auto
        moreover have "the (lookup d p) = 0" using False p val by auto
        ultimately show False by simp
      qed
    next
      assume h: "a \<notin> set (window (shape d) sz p) \<and> b \<notin> set (window (shape d) sz p)"
      show "\<forall>q\<in>set (window (shape d) sz p). the (lookup d q) \<le> the (lookup d p)"
      proof
        fix q assume q: "q \<in> set (window (shape d) sz p)"
        with h have "q \<noteq> a" "q \<noteq> b" by auto
        with val[OF window_valid[OF q]] val[OF p] False show "the (lookup d q) \<le> the (lookup d p)"
          by simp
      qed
    qed
    with False p show ?thesis by (simp add: in_candidates_iff[OF wf])
  qed
qed

lemma distinct_candidates: "distinct (candidates d sz)"
  by (simp add: candidates_def distinct_indices)

lemma candidates_valid: "p \<in> set (candidates d sz) \<Longrightarrow> p \<in> set (indices (shape d))"
  by (simp add: candidates_def)

text \<open>
  Claim C9, as amended.  \<^verbatim>\<open>find_local_maxima\<close>, as the written contract describes it,
  returns a seed map in the shape of the field and a count.  The map is positive exactly
  on the seed candidates, with ids between 1 and the count; two candidates carry the same
  id exactly when they lie in the same connected region; the count is the number of
  regions.  On a field of two unit impulses in a background of zeros the candidates are the
  two impulses and every background position whose filter window holds neither impulse,
  so the count is the number of regions these positions form, which need not be 2.
\<close>

theorem local_maxima_are_labelled_regions:
  fixes d :: "'a::linordered_idom ndarray"
  assumes "wellformed d"
  shows "shape (fst (find_local_maxima d sz)) = shape d
       \<and> (\<forall>p\<in>set (indices (shape d)).
             if p \<in> set (candidates d sz)
             then \<exists>i. lookup (fst (find_local_maxima d sz)) p = Some i
                      \<and> 1 \<le> i \<and> i \<le> int (snd (find_local_maxima d sz))
             else lookup (fst (find_local_maxima d sz)) p = Some 0)
       \<and> (\<forall>p\<in>set (candidates d sz). \<forall>q\<in>set (candidates d sz).
             lookup (fst (find_local_maxima d sz)) p = lookup (fst (find_local_maxima d sz)) q
             \<longleftrightarrow> same_region (candidates d sz) p q)
       \<and> snd (find_local_maxima d sz)
           = card ((\<lambda>p. {q. same_region (candidates d sz) p q}) ` set (candidates d sz))
       \<and> (\<forall>a b. two_impulses d a b \<longrightarrow>
             (\<forall>p\<in>set (indices (shape d)).
                p \<in> set (candidates d sz) \<longleftrightarrow>
                  p = a \<or> p = b
                  \<or> (a \<notin> set (window (shape d) sz p) \<and> b \<notin> set (window (shape d) sz p))))"
proof -
  let ?c = "candidates d sz"
  have seeds: "fst (find_local_maxima d sz) = tabulate (shape d) (seed_id ?c)"
    and n: "snd (find_local_maxima d sz) = length (roots ?c)"
    by (simp_all add: find_local_maxima_def Let_def)
  have 1: "shape (fst (find_local_maxima d sz)) = shape d"
    by (simp add: seeds tabulate_def)
  have 2: "\<forall>p\<in>set (indices (shape d)).
             if p \<in> set ?c
             then \<exists>i. lookup (fst (find_local_maxima d sz)) p = Some i
                      \<and> 1 \<le> i \<and> i \<le> int (snd (find_local_maxima d sz))
             else lookup (fst (find_local_maxima d sz)) p = Some 0"
    by (simp add: seeds n lookup_tabulate seed_id_range seed_id_other)
  have 3: "\<forall>p\<in>set ?c. \<forall>q\<in>set ?c.
             lookup (fst (find_local_maxima d sz)) p = lookup (fst (find_local_maxima d sz)) q
             \<longleftrightarrow> same_region ?c p q"
    by (simp add: seeds lookup_tabulate candidates_valid seed_id_eq_iff)
  have 4: "snd (find_local_maxima d sz) = card ((\<lambda>p. {q. same_region ?c p q}) ` set ?c)"
    by (simp add: n count_regions[OF distinct_candidates])
  have 5: "\<forall>a b. two_impulses d a b \<longrightarrow>
             (\<forall>p\<in>set (indices (shape d)).
                p \<in> set ?c \<longleftrightarrow>
                  p = a \<or> p = b
                  \<or> (a \<notin> set (window (shape d) sz p) \<and> b \<notin> set (window (shape d) sz p)))"
    using impulse_candidates[OF assms] by blast
  from 1 2 3 4 5 show ?thesis by blast
qed

lemma impulse_wellformed: "wellformed impulse_field"
  by (simp add: wellformed_def impulse_field_def upt_rec)

lemma impulse_two: "two_impulses impulse_field [0] [4]"
  by (simp add: two_impulses_def impulse_field_def lookup_def upt_rec)

lemma impulse_cands: "candidates impulse_field 3 = [[0], [2], [4]]"
  by code_simp

lemma impulse_edges: "region_edges [[0], [2], [4]] = []"
  by code_simp

lemma impulse_regions: "same_region [[0], [2], [4]] p q = (p = q)"
  by (simp add: same_region_def impulse_edges)

lemma impulse_shape: "shape impulse_field = [5]"
  by (simp add: impulse_field_def)

theorem local_maxima_are_labelled_regions_witness:
  "wellformed impulse_field \<and> two_impulses impulse_field [0] [4]
   \<and> [2] \<in> set (candidates impulse_field 3)
   \<and> (\<exists>i. lookup (fst (find_local_maxima impulse_field 3)) [2] = Some i
          \<and> 1 \<le> i \<and> i \<le> int (snd (find_local_maxima impulse_field 3)))
   \<and> snd (find_local_maxima impulse_field 3)
       = card ((\<lambda>p. {q. same_region (candidates impulse_field 3) p q})
                ` set (candidates impulse_field 3))"
proof -
  note t = local_maxima_are_labelled_regions[OF impulse_wellformed, of 3]
  have v: "[2] \<in> set (indices (shape impulse_field))"
    by code_simp
  have w: "[0] \<notin> set (window (shape impulse_field) 3 [2])"
    "[4] \<notin> set (window (shape impulse_field) 3 [2])"
    by code_simp+
  from t impulse_two v w have c: "[2] \<in> set (candidates impulse_field 3)"
    by blast
  from t v c have "\<exists>i. lookup (fst (find_local_maxima impulse_field 3)) [2] = Some i
          \<and> 1 \<le> i \<and> i \<le> int (snd (find_local_maxima impulse_field 3))"
    by meson
  with t c impulse_wellformed impulse_two show ?thesis
    by blast
qed

text \<open>
  Claim C9 as stated fails: on the field \<open>[1, 0, 0, 0, 1]\<close>, whose impulses are four
  pixels apart, a minimal distance of 3 gives three seeds.  The pixel in the middle has no
  impulse in its window, equals the filtered value 0 and is a region of its own.
\<close>

theorem two_impulses_three_seeds:
  "two_impulses impulse_field [0] [4]
   \<and> find_local_maxima impulse_field 3 = (\<lparr>shape = [5], data = [1, 0, 2, 0, 3]\<rparr>, 3)"
  by (simp add: impulse_two find_local_maxima_def impulse_cands impulse_shape Let_def roots_def
      region_root_def impulse_regions seed_id_def tabulate_def upt_rec)

section \<open>The flood ends and keeps its invariants\<close>

lemma set_heappush [simp]: "set (heappush e h) = insert e (set h)"
  by (induction h) auto

lemma length_heappush [simp]: "length (heappush e h) = Suc (length h)"
  by (induction h) auto

lemma evolves_refl: "evolves msk o1 o1"
  by (simp add: evolves_def)

lemma evolves_trans:
  assumes "evolves msk o1 o2" and "evolves msk o2 o3"
  shows "evolves msk o1 o3"
  unfolding evolves_def
proof (intro allI impI)
  fix p assume d: "o3 p \<noteq> o1 p"
  show "msk p \<and> o1 p = 0 \<and> (\<exists>q. o1 q \<noteq> 0 \<and> o3 p = o1 q)"
  proof (cases "o2 p = o1 p")
    case True
    with d have "o3 p \<noteq> o2 p" by simp
    with assms(2) obtain q where q: "msk p" "o2 p = 0" "o2 q \<noteq> 0" "o3 p = o2 q"
      unfolding evolves_def by blast
    have "\<exists>r. o1 r \<noteq> 0 \<and> o2 q = o1 r"
    proof (cases "o2 q = o1 q")
      case True with q(3) show ?thesis by auto
    next
      case False with assms(1) show ?thesis unfolding evolves_def by blast
    qed
    with q True show ?thesis by auto
  next
    case False
    with assms(1) obtain q where q: "msk p" "o1 p = 0" "o1 q \<noteq> 0" "o2 p = o1 q"
      unfolding evolves_def by blast
    have "o3 p = o2 p"
    proof (rule ccontr)
      assume "o3 p \<noteq> o2 p"
      with assms(2) have "o2 p = 0" unfolding evolves_def by blast
      with q show False by simp
    qed
    with q show ?thesis by auto
  qed
qed

lemma visit_step:
  assumes fin: "finite {p. msk p}"
    and lab: "labelled_heap st"
    and e: "outp st (index e) \<noteq> 0"
  shows "labelled_heap (visit img msk e nb st)"
    and "outp (visit img msk e nb st) (index e) \<noteq> 0"
    and "evolves msk (outp st) (outp (visit img msk e nb st))"
    and "flood_measure msk (visit img msk e nb st) \<le> flood_measure msk st"
proof -
  let ?st' = "visit img msk e nb st"
  show "labelled_heap ?st'"
    using lab e by (auto simp: labelled_heap_def visit_def Let_def)
  show "outp ?st' (index e) \<noteq> 0"
    using e by (auto simp: visit_def Let_def)
  show "evolves msk (outp st) (outp ?st')"
    using e by (auto simp: evolves_def visit_def Let_def)
  show "flood_measure msk ?st' \<le> flood_measure msk st"
  proof (cases "msk nb \<and> outp st nb = 0")
    case False
    then show ?thesis by (auto simp: visit_def)
  next
    case True
    have finu: "finite (unlabelled msk st)"
      using fin by (simp add: unlabelled_def)
    have nb: "nb \<in> unlabelled msk st"
      using True by (simp add: unlabelled_def)
    have "unlabelled msk ?st' = unlabelled msk st - {nb}"
      using True e by (auto simp: unlabelled_def visit_def Let_def)
    then have "card (unlabelled msk ?st') = card (unlabelled msk st) - 1"
      using finu nb by simp
    moreover have "0 < card (unlabelled msk st)"
      using finu nb by (auto simp: card_gt_0_iff)
    moreover have "length (heap ?st') = Suc (length (heap st))"
      using True by (simp add: visit_def Let_def)
    ultimately show ?thesis by (simp add: flood_measure_def)
  qed
qed

lemma fold_visit:
  assumes fin: "finite {p. msk p}"
    and lab: "labelled_heap st"
    and e: "outp st (index e) \<noteq> 0"
  shows "labelled_heap (fold (visit img msk e) nbs st)
       \<and> evolves msk (outp st) (outp (fold (visit img msk e) nbs st))
       \<and> flood_measure msk (fold (visit img msk e) nbs st) \<le> flood_measure msk st"
  using lab e
proof (induction nbs arbitrary: st)
  case Nil
  then show ?case by (simp add: evolves_refl)
next
  case (Cons nb nbs)
  note v = visit_step[OF fin Cons.prems(1) Cons.prems(2), of img nb]
  from Cons.IH[OF v(1) v(2)] v(3) v(4) show ?case
    by (auto intro: evolves_trans)
qed

lemma pop_step:
  assumes fin: "finite {p. msk p}"
    and lab: "labelled_heap st"
    and h: "heap st = e # rest"
  shows "labelled_heap (fold (visit img msk e) nbs (st\<lparr>heap := rest\<rparr>))"
    and "evolves msk (outp st) (outp (fold (visit img msk e) nbs (st\<lparr>heap := rest\<rparr>)))"
    and "flood_measure msk (fold (visit img msk e) nbs (st\<lparr>heap := rest\<rparr>)) < flood_measure msk st"
proof -
  let ?s = "st\<lparr>heap := rest\<rparr>"
  have 1: "labelled_heap ?s" and 2: "outp ?s (index e) \<noteq> 0"
    using lab h by (auto simp: labelled_heap_def)
  have 3: "flood_measure msk ?s < flood_measure msk st"
    using h by (simp add: flood_measure_def unlabelled_def)
  from fold_visit[OF fin 1 2, of img nbs] 3
  show "labelled_heap (fold (visit img msk e) nbs ?s)"
    and "evolves msk (outp st) (outp (fold (visit img msk e) nbs ?s))"
    and "flood_measure msk (fold (visit img msk e) nbs ?s) < flood_measure msk st"
    by auto
qed

lemma watershed_raveled_total:
  assumes fin: "finite {p. msk p}"
    and lab: "labelled_heap st"
  shows "\<exists>out. watershed_raveled img msk st = Some out \<and> evolves msk (outp st) out"
  using lab
proof (induction "flood_measure msk st" arbitrary: st rule: less_induct)
  case less
  show ?case
  proof (cases "heap st")
    case Nil
    then show ?thesis
      by (subst watershed_raveled.simps) (simp add: evolves_refl)
  next
    case (Cons e rest)
    let ?s = "fold (visit img msk e) (neighbors (index e)) (st\<lparr>heap := rest\<rparr>)"
    note p = pop_step[OF fin less.prems Cons, of img "neighbors (index e)"]
    from less.hyps[OF p(3) p(1)] obtain out
      where out: "watershed_raveled img msk ?s = Some out" "evolves msk (outp ?s) out"
      by blast
    have "watershed_raveled img msk st = Some out"
      using out(1) Cons by (subst watershed_raveled.simps) simp
    moreover have "evolves msk (outp st) out"
      using p(2) out(2) by (rule evolves_trans)
    ultimately show ?thesis by blast
  qed
qed

lemma set_marker_heap_aux:
  "set (fold (\<lambda>p h. heappush \<lparr>hval = img p, age = 0, index = p, source = p\<rparr> h) locs h0)
   = (\<lambda>p. \<lparr>hval = img p, age = 0, index = p, source = p\<rparr>) ` set locs \<union> set h0"
  by (induction locs arbitrary: h0) auto

lemma set_marker_heap:
  "set (marker_heap img locs) = (\<lambda>p. \<lparr>hval = img p, age = 0, index = p, source = p\<rparr>) ` set locs"
  by (simp add: marker_heap_def set_marker_heap_aux)

lemma finite_inside: "finite {p. inside in_mask p}"
proof (rule finite_subset)
  show "{p. inside in_mask p} \<subseteq> set (indices (shape in_mask))"
    by (auto simp: inside_def dest: lookup_valid)
qed simp

lemma masked_markers_inside: "masked_markers markers in_mask p \<noteq> 0 \<Longrightarrow> inside in_mask p"
  by (auto simp: masked_markers_def split: option.splits if_splits)

lemma watershed_flood:
  assumes "shape in_mask = shape terr" and "shape markers = shape terr"
  shows "\<exists>out. watershed terr markers in_mask = Some (Inr (tabulate (shape terr) out))
           \<and> evolves (inside in_mask) (masked_markers markers in_mask) out"
proof -
  let ?st = "\<lparr>heap = marker_heap (pixel terr)
                 (filter (\<lambda>p. masked_markers markers in_mask p \<noteq> 0) (indices (shape terr))),
              outp = masked_markers markers in_mask, agec = 1\<rparr>"
  have "labelled_heap ?st"
    by (auto simp: labelled_heap_def set_marker_heap)
  from watershed_raveled_total[OF finite_inside this, of "pixel terr"]
  obtain out where "watershed_raveled (pixel terr) (inside in_mask) ?st = Some out"
    and "evolves (inside in_mask) (masked_markers markers in_mask) out"
    by auto
  then show ?thesis
    using assms by (auto simp: watershed_def Let_def)
qed

lemma watershed_shape_error:
  "shape in_mask \<noteq> shape terr \<or> shape markers \<noteq> shape terr \<Longrightarrow>
   watershed terr markers in_mask = Some (Inl ShapeMismatch)"
  by (simp add: watershed_def)

lemma watershed_returns: "watershed terr markers in_mask \<noteq> None"
  using watershed_flood[of in_mask terr markers] watershed_shape_error[of in_mask terr markers]
  by fastforce

text \<open>
  What the flood leaves outside the mask, where its labels come from, and that it keeps the
  markers it started from.
\<close>

lemma evolves_outside:
  "evolves (inside in_mask) (masked_markers markers in_mask) out \<Longrightarrow> \<not> inside in_mask p \<Longrightarrow> out p = 0"
  unfolding evolves_def masked_markers_def by (metis (mono_tags, lifting) option.case_eq_if)

lemma evolves_label_source:
  assumes "evolves (inside in_mask) (masked_markers markers in_mask) out" and "out p \<noteq> 0"
  shows "\<exists>q m. lookup markers q = Some m \<and> m \<noteq> 0 \<and> inside in_mask q \<and> out p = m"
proof -
  let ?o = "masked_markers markers in_mask"
  have "\<exists>q. ?o q \<noteq> 0 \<and> out p = ?o q"
  proof (cases "out p = ?o p")
    case True with assms(2) show ?thesis by auto
  next
    case False with assms(1) show ?thesis unfolding evolves_def by blast
  qed
  then obtain q where q: "?o q \<noteq> 0" "out p = ?o q" by blast
  then show ?thesis
    by (auto simp: masked_markers_def split: option.splits if_splits)
qed

lemma evolves_keeps_markers:
  assumes "evolves (inside in_mask) (masked_markers markers in_mask) out"
    and "lookup markers p = Some m" and "m \<noteq> 0" and "inside in_mask p"
  shows "out p = m"
  using assms unfolding evolves_def masked_markers_def
  by (metis (mono_tags, lifting) option.simps(5))

section \<open>The flood reaches every connected pixel\<close>

text \<open>
  Two more invariants of the flood: every label comes from a marker along steps inside the
  mask, and a labelled pixel that has left the heap has labelled its neighbours inside the
  mask.  When the heap is empty the labelled pixels are therefore closed under steps inside
  the mask.  Neither depends on the order in which the heap returns its items.
\<close>

lemma visit_labels:
  assumes "outp st (index e) \<noteq> 0"
  shows "outp st p \<noteq> 0 \<Longrightarrow> outp (visit img msk e nb st) p \<noteq> 0"
    and "msk nb \<Longrightarrow> outp (visit img msk e nb st) nb \<noteq> 0"
    and "set (heap st) \<subseteq> set (heap (visit img msk e nb st))"
    and "outp (visit img msk e nb st) p \<noteq> 0 \<Longrightarrow> outp st p = 0 \<Longrightarrow>
           p \<in> index ` set (heap (visit img msk e nb st))"
  using assms by (auto simp: visit_def Let_def)

lemma visit_sourced:
  assumes "sourced msk o0 (outp st)" and "outp st (index e) \<noteq> 0"
    and "nb \<in> set (neighbors (index e))"
  shows "sourced msk o0 (outp (visit img msk e nb st))"
proof (cases "msk nb \<and> outp st nb = 0")
  case False
  then show ?thesis
    using assms(1) by (auto simp: visit_def)
next
  case True
  from assms(1,2) obtain q where q: "msk (index e)" "o0 q \<noteq> 0" "outp st (index e) = o0 q"
    "(q, index e) \<in> (mask_steps msk)\<^sup>*"
    unfolding sourced_def by blast
  have "(index e, nb) \<in> mask_steps msk"
    using True q(1) assms(3) by (simp add: mask_steps_def)
  with q(4) have "(q, nb) \<in> (mask_steps msk)\<^sup>*"
    by (rule rtrancl_into_rtrancl)
  with q True assms(1) show ?thesis
    unfolding sourced_def by (auto simp: visit_def Let_def)
qed

lemma visit_settled:
  assumes "settled msk busy st" and "outp st (index e) \<noteq> 0"
  shows "settled msk busy (visit img msk e nb st)"
  unfolding settled_def
proof (intro allI impI ballI)
  let ?st = "visit img msk e nb st"
  fix p q
  assume p: "outp ?st p \<noteq> 0 \<and> p \<notin> busy \<and> p \<notin> index ` set (heap ?st)"
    and q: "q \<in> set (neighbors p)" "msk q"
  from p visit_labels(4)[OF assms(2)] have "outp st p \<noteq> 0"
    by blast
  moreover from p visit_labels(3)[OF assms(2), of img msk nb] have "p \<notin> index ` set (heap st)"
    by blast
  ultimately have "outp st q \<noteq> 0"
    using assms(1) p q unfolding settled_def by blast
  from visit_labels(1)[OF assms(2) this] show "outp ?st q \<noteq> 0" .
qed

lemma fold_visit_flood:
  assumes "sourced msk o0 (outp st)" and "settled msk busy st" and "outp st (index e) \<noteq> 0"
    and "set nbs \<subseteq> set (neighbors (index e))"
  shows "sourced msk o0 (outp (fold (visit img msk e) nbs st))
       \<and> settled msk busy (fold (visit img msk e) nbs st)
       \<and> (\<forall>q\<in>set nbs. msk q \<longrightarrow> outp (fold (visit img msk e) nbs st) q \<noteq> 0)
       \<and> (\<forall>p. outp st p \<noteq> 0 \<longrightarrow> outp (fold (visit img msk e) nbs st) p \<noteq> 0)"
  using assms
proof (induction nbs arbitrary: st)
  case Nil
  then show ?case by simp
next
  case (Cons nb nbs)
  let ?st = "visit img msk e nb st"
  have 1: "sourced msk o0 (outp ?st)"
    using Cons.prems by (intro visit_sourced) auto
  have 2: "settled msk busy ?st"
    using Cons.prems by (intro visit_settled) auto
  have 3: "outp ?st (index e) \<noteq> 0"
    using visit_labels(1)[OF Cons.prems(3)] Cons.prems(3) by blast
  have 4: "set nbs \<subseteq> set (neighbors (index e))"
    using Cons.prems(4) by simp
  note ih = Cons.IH[OF 1 2 3 4]
  have "msk nb \<longrightarrow> outp (fold (visit img msk e) nbs ?st) nb \<noteq> 0"
    using ih visit_labels(2)[OF Cons.prems(3), of msk nb img] by blast
  moreover have "\<forall>p. outp st p \<noteq> 0 \<longrightarrow> outp (fold (visit img msk e) nbs ?st) p \<noteq> 0"
    using ih visit_labels(1)[OF Cons.prems(3)] by blast
  ultimately show ?case
    using ih by simp
qed

lemma pop_flood:
  assumes "sourced msk o0 (outp st)" and "settled msk {} st" and "labelled_heap st"
    and h: "heap st = e # rest"
  shows "sourced msk o0 (outp (fold (visit img msk e) (neighbors (index e)) (st\<lparr>heap := rest\<rparr>)))"
    and "settled msk {} (fold (visit img msk e) (neighbors (index e)) (st\<lparr>heap := rest\<rparr>))"
proof -
  let ?s = "st\<lparr>heap := rest\<rparr>"
  let ?t = "fold (visit img msk e) (neighbors (index e)) ?s"
  have e: "outp ?s (index e) \<noteq> 0"
    using assms(3) h by (simp add: labelled_heap_def)
  have s: "settled msk {index e} ?s"
    using assms(2) h unfolding settled_def by auto
  from fold_visit_flood[of msk o0 ?s "{index e}" e "neighbors (index e)" img] assms(1) s e
  have f: "sourced msk o0 (outp ?t)" "settled msk {index e} ?t"
    "\<forall>q\<in>set (neighbors (index e)). msk q \<longrightarrow> outp ?t q \<noteq> 0"
    by simp_all
  show "sourced msk o0 (outp ?t)" by (rule f(1))
  show "settled msk {} ?t"
    unfolding settled_def
  proof (intro allI impI ballI)
    fix p q
    assume p: "outp ?t p \<noteq> 0 \<and> p \<notin> {} \<and> p \<notin> index ` set (heap ?t)"
      and q: "q \<in> set (neighbors p)" "msk q"
    show "outp ?t q \<noteq> 0"
    proof (cases "p = index e")
      case True
      with f(3) q show ?thesis by blast
    next
      case False
      with f(2) p q show ?thesis unfolding settled_def by blast
    qed
  qed
qed

lemma watershed_raveled_floods:
  assumes fin: "finite {p. msk p}"
    and lab: "labelled_heap st"
    and src: "sourced msk o0 (outp st)"
    and stl: "settled msk {} st"
  shows "\<exists>out. watershed_raveled img msk st = Some out \<and> sourced msk o0 out
           \<and> (\<forall>p. out p \<noteq> 0 \<longrightarrow> (\<forall>q\<in>set (neighbors p). msk q \<longrightarrow> out q \<noteq> 0))"
  using lab src stl
proof (induction "flood_measure msk st" arbitrary: st rule: less_induct)
  case less
  show ?case
  proof (cases "heap st")
    case Nil
    have "watershed_raveled img msk st = Some (outp st)"
      using Nil by (subst watershed_raveled.simps) simp
    moreover have "\<forall>p. outp st p \<noteq> 0 \<longrightarrow> (\<forall>q\<in>set (neighbors p). msk q \<longrightarrow> outp st q \<noteq> 0)"
      using less.prems(3) Nil unfolding settled_def by simp
    ultimately show ?thesis
      using less.prems(2) by blast
  next
    case (Cons e rest)
    let ?s = "fold (visit img msk e) (neighbors (index e)) (st\<lparr>heap := rest\<rparr>)"
    note p = pop_step[OF fin less.prems(1) Cons, of img "neighbors (index e)"]
    note f = pop_flood[OF less.prems(2) less.prems(3) less.prems(1) Cons, of img]
    from less.hyps[OF p(3) p(1) f] obtain out
      where out: "watershed_raveled img msk ?s = Some out" "sourced msk o0 out"
        "\<forall>p. out p \<noteq> 0 \<longrightarrow> (\<forall>q\<in>set (neighbors p). msk q \<longrightarrow> out q \<noteq> 0)"
      by blast
    have "watershed_raveled img msk st = Some out"
      using out(1) Cons by (subst watershed_raveled.simps) simp
    with out(2,3) show ?thesis by blast
  qed
qed

lemma flood_reaches:
  assumes ev: "evolves msk o0 out"
    and closed: "\<forall>p. out p \<noteq> 0 \<longrightarrow> (\<forall>q\<in>set (neighbors p). msk q \<longrightarrow> out q \<noteq> 0)"
    and q: "o0 q \<noteq> 0"
    and path: "(q, p) \<in> (mask_steps msk)\<^sup>*"
  shows "out p \<noteq> 0"
  using path
proof (induction rule: rtrancl_induct)
  case base
  from ev q show ?case
    unfolding evolves_def by metis
next
  case (step a b)
  from step(2) have "b \<in> set (neighbors a)" "msk b"
    by (simp_all add: mask_steps_def)
  with closed step(3) show ?case
    by blast
qed

lemma watershed_floods:
  assumes "shape in_mask = shape terr" and "shape markers = shape terr"
  shows "\<exists>out. watershed terr markers in_mask = Some (Inr (tabulate (shape terr) out))
           \<and> evolves (inside in_mask) (masked_markers markers in_mask) out
           \<and> sourced (inside in_mask) (masked_markers markers in_mask) out
           \<and> (\<forall>p. out p \<noteq> 0 \<longrightarrow> (\<forall>q\<in>set (neighbors p). inside in_mask q \<longrightarrow> out q \<noteq> 0))"
proof -
  let ?o = "masked_markers markers in_mask"
  let ?locs = "filter (\<lambda>p. ?o p \<noteq> 0) (indices (shape terr))"
  let ?st = "\<lparr>heap = marker_heap (pixel terr) ?locs, outp = ?o, agec = 1\<rparr>"
  have lab: "labelled_heap ?st"
    by (auto simp: labelled_heap_def set_marker_heap)
  have src: "sourced (inside in_mask) ?o (outp ?st)"
    unfolding sourced_def by (auto intro: masked_markers_inside)
  have valid: "p \<in> set (indices (shape terr))" if "?o p \<noteq> 0" for p
  proof -
    from that obtain m where "lookup markers p = Some m"
      by (auto simp: masked_markers_def split: option.splits)
    from lookup_valid[OF this] assms(2) show ?thesis
      by simp
  qed
  have "index ` set (heap ?st) = set ?locs"
    by (simp add: set_marker_heap image_image)
  with valid have "p \<in> index ` set (heap ?st)" if "?o p \<noteq> 0" for p
    using that by simp
  then have stl: "settled (inside in_mask) {} ?st"
    unfolding settled_def by auto
  from watershed_raveled_total[OF finite_inside lab, of "pixel terr"]
  obtain out where out: "watershed_raveled (pixel terr) (inside in_mask) ?st = Some out"
    and ev: "evolves (inside in_mask) ?o out"
    by auto
  from watershed_raveled_floods[OF finite_inside lab src stl, of "pixel terr"] out
  have "sourced (inside in_mask) ?o out"
    "\<forall>p. out p \<noteq> 0 \<longrightarrow> (\<forall>q\<in>set (neighbors p). inside in_mask q \<longrightarrow> out q \<noteq> 0)"
    by auto
  with out ev show ?thesis
    using assms by (auto simp: watershed_def Let_def)
qed

section \<open>The two branches of the function\<close>

lemma lookup_offset_seeds:
  "lookup (offset_seeds id_offset seeds) p
   = map_option (\<lambda>s. if s \<noteq> 0 then wrap32 (s + id_offset) else s) (lookup seeds p)"
  by (simp add: offset_seeds_def lookup_map_nd)

lemma shape_offset_seeds [simp]: "shape (offset_seeds id_offset seeds) = shape seeds"
  by (simp add: offset_seeds_def map_nd_def)

lemma terrain_nonempty:
  "data d \<noteq> [] \<Longrightarrow> \<exists>t. terrain sub d = Inr t \<and> shape t = shape d"
  by (auto simp: terrain_def amax_def map_nd_def split: list.splits)

lemma terrain_shape: "terrain sub d = Inr t \<Longrightarrow> shape t = shape d"
  by (auto simp: terrain_def map_nd_def split: sum.splits)

lemma seeded_branch:
  assumes f: "find_seeds d msd = (seeds, n)" and n: "n \<noteq> 0"
    and s1: "shape seeds = shape d" and s2: "shape inner_mask = shape d" and ne: "data d \<noteq> []"
    and r: "- (2 ^ 31) \<le> id_offset" "id_offset < 2 ^ 31"
  shows "\<exists>out. watershed_from_boundary_distance sub find_seeds d inner_mask id_offset msd
               = Some (Inr (RArray (tabulate (shape d) out)))
             \<and> evolves (inside inner_mask) (masked_markers (offset_seeds id_offset seeds) inner_mask) out"
proof -
  from terrain_nonempty[OF ne] obtain t where t: "terrain sub d = Inr t" "shape t = shape d"
    by blast
  from watershed_flood[of inner_mask t "offset_seeds id_offset seeds"] s1 s2 t(2)
  obtain out where "watershed t (offset_seeds id_offset seeds) inner_mask = Some (Inr (tabulate (shape t) out))"
    and "evolves (inside inner_mask) (masked_markers (offset_seeds id_offset seeds) inner_mask) out"
    by auto
  then show ?thesis
    using f n t r by (auto simp: watershed_from_boundary_distance_def Let_def)
qed

lemma wfbd_cases:
  assumes "watershed_from_boundary_distance sub find_seeds d inner_mask id_offset msd = Some (Inr r)"
  shows "(snd (find_seeds d msd) = 0 \<and> r = RTuple (zeros (shape d)) id_offset)
       \<or> (snd (find_seeds d msd) \<noteq> 0 \<and> (\<exists>out. r = RArray (tabulate (shape d) out)
             \<and> evolves (inside inner_mask)
                  (masked_markers (offset_seeds id_offset (fst (find_seeds d msd))) inner_mask) out))"
proof (cases "find_seeds d msd")
  case (Pair seeds n)
  show ?thesis
  proof (cases "n = 0")
    case True
    with assms Pair show ?thesis by (simp add: watershed_from_boundary_distance_def)
  next
    case False
    from assms Pair False obtain t seg where t: "terrain sub d = Inr t"
      and w: "watershed t (offset_seeds id_offset seeds) inner_mask = Some (Inr seg)" and r: "r = RArray seg"
      by (auto simp: watershed_from_boundary_distance_def Let_def
          split: sum.splits option.splits if_splits)
    have sh: "shape inner_mask = shape t" "shape (offset_seeds id_offset seeds) = shape t"
      using w by (auto simp: watershed_def split: if_splits)
    from watershed_flood[OF sh] w obtain out where "seg = tabulate (shape t) out"
      and "evolves (inside inner_mask) (masked_markers (offset_seeds id_offset seeds) inner_mask) out"
      by auto
    with r Pair False terrain_shape[OF t] show ?thesis by auto
  qed
qed

lemma wfbd_returns:
  "watershed_from_boundary_distance sub find_seeds d inner_mask id_offset msd \<noteq> None"
  by (auto simp: watershed_from_boundary_distance_def Let_def watershed_returns
      split: prod.splits sum.splits option.splits)

lemma ex_shapes:
  "shape ex_mask = shape ex_field" "shape ex_seeds = shape ex_field" "data ex_field \<noteq> []"
  "ex_find ex_field 20 = (ex_seeds, 2)"
  by (simp_all add: ex_mask_def ex_field_def ex_seeds_def ex_find_def)

lemma ex_seeded_run:
  "watershed_from_boundary_distance (-) ex_find ex_field ex_mask 10 20
   = Some (Inr (RArray ex_segmentation))"
  by code_simp

lemma ex_wellformed: "wellformed ex_field"
  by (simp add: wellformed_def ex_field_def upt_rec)

lemma ex_terrain_run:
  "amax ex_field = Inr 5"
  "terrain (-) ex_field = Inr \<lparr>shape = [2, 3], data = [2, 4, 5, 5, 3, 0]\<rparr>"
  by (simp_all add: terrain_def amax_def ex_field_def map_nd_def)

text \<open>The addition in 32-bit integers, and the seeded branch with its flood.\<close>

lemma wrap32_in_range: "- (2 ^ 31) \<le> x \<Longrightarrow> x < 2 ^ 31 \<Longrightarrow> wrap32 x = x"
  by (simp add: wrap32_def)

lemma wrap32_positive:
  assumes "0 \<le> s" and "s < 2 ^ 31" and "- (2 ^ 31) \<le> k" and "k < 2 ^ 31"
    and "0 < wrap32 (s + k)"
  shows "wrap32 (s + k) = s + k"
proof (cases "s + k < 2 ^ 31")
  case True
  with assms show ?thesis
    by (intro wrap32_in_range) simp_all
next
  case False
  then have "(s + k + 2 ^ 31) mod 2 ^ 32 = s + k + 2 ^ 31 - 2 ^ 32"
    using assms by (intro int_mod_pos_eq[where q = 1]) simp_all
  then have "wrap32 (s + k) < 0"
    using assms by (simp add: wrap32_def)
  with assms(5) show ?thesis
    by simp
qed

lemma seeded_flood:
  assumes f: "find_seeds d msd = (seeds, n)" and n: "n \<noteq> 0"
    and s1: "shape seeds = shape d" and s2: "shape inner_mask = shape d" and ne: "data d \<noteq> []"
    and r: "- (2 ^ 31) \<le> id_offset" "id_offset < 2 ^ 31"
  shows "\<exists>out. watershed_from_boundary_distance sub find_seeds d inner_mask id_offset msd
               = Some (Inr (RArray (tabulate (shape d) out)))
             \<and> evolves (inside inner_mask) (masked_markers (offset_seeds id_offset seeds) inner_mask) out
             \<and> sourced (inside inner_mask) (masked_markers (offset_seeds id_offset seeds) inner_mask) out
             \<and> (\<forall>p. out p \<noteq> 0 \<longrightarrow> (\<forall>q\<in>set (neighbors p). inside inner_mask q \<longrightarrow> out q \<noteq> 0))"
proof -
  from terrain_nonempty[OF ne] obtain t where t: "terrain sub d = Inr t" "shape t = shape d"
    by blast
  from watershed_floods[of inner_mask t "offset_seeds id_offset seeds"] s1 s2 t(2)
  obtain out where "watershed t (offset_seeds id_offset seeds) inner_mask = Some (Inr (tabulate (shape t) out))"
    and "evolves (inside inner_mask) (masked_markers (offset_seeds id_offset seeds) inner_mask) out"
    and "sourced (inside inner_mask) (masked_markers (offset_seeds id_offset seeds) inner_mask) out"
    and "\<forall>p. out p \<noteq> 0 \<longrightarrow> (\<forall>q\<in>set (neighbors p). inside inner_mask q \<longrightarrow> out q \<noteq> 0)"
    by auto
  then show ?thesis
    using f n t r by (auto simp: watershed_from_boundary_distance_def Let_def)
qed

lemma marker_seed:
  "masked_markers (offset_seeds id_offset seeds) inner_mask q \<noteq> 0 \<longleftrightarrow>
     (\<exists>s. lookup seeds q = Some s \<and> s \<noteq> 0 \<and> wrap32 (s + id_offset) \<noteq> 0
          \<and> lookup inner_mask q = Some True)"
  by (auto simp: masked_markers_def lookup_offset_seeds inside_def split: option.splits)

lemma marker_value:
  "lookup seeds q = Some s \<Longrightarrow> s \<noteq> 0 \<Longrightarrow> lookup inner_mask q = Some True \<Longrightarrow>
   masked_markers (offset_seeds id_offset seeds) inner_mask q = wrap32 (s + id_offset)"
  by (simp add: masked_markers_def lookup_offset_seeds inside_def)

section \<open>Zero seeds\<close>



section \<open>Pixels outside the mask\<close>

text \<open>
  Claim C6.  For a mask in the shape of the field the call always returns, and in the
  segmentation it returns every position where the mask is false carries 0; with a mask
  that is false everywhere the segmentation is zero everywhere, whatever the field.
\<close>

theorem unmasked_positions_are_background:
  assumes "shape inner_mask = shape boundary_distances"
  shows "watershed_from_boundary_distance sub find_seeds boundary_distances inner_mask
           id_offset min_seed_distance \<noteq> None
       \<and> (\<forall>r. watershed_from_boundary_distance sub find_seeds boundary_distances inner_mask
                 id_offset min_seed_distance = Some (Inr r) \<longrightarrow>
              shape (segmentation_of r) = shape boundary_distances
            \<and> (\<forall>p. lookup inner_mask p = Some False \<longrightarrow> lookup (segmentation_of r) p = Some 0)
            \<and> (set (data inner_mask) \<subseteq> {False} \<longrightarrow> set (data (segmentation_of r)) \<subseteq> {0}))"
proof (intro conjI allI impI)
  show "watershed_from_boundary_distance sub find_seeds boundary_distances inner_mask
           id_offset min_seed_distance \<noteq> None"
    by (rule wfbd_returns)
next
  fix r
  assume r: "watershed_from_boundary_distance sub find_seeds boundary_distances inner_mask
                 id_offset min_seed_distance = Some (Inr r)"
  note c = wfbd_cases[OF r]
  show "shape (segmentation_of r) = shape boundary_distances"
    using c by (auto simp: zeros_def tabulate_def)
  {
    fix p assume p: "lookup inner_mask p = Some False"
    then have v: "p \<in> set (indices (shape boundary_distances))"
      using lookup_valid assms by metis
    from p have "\<not> inside inner_mask p" by (simp add: inside_def)
    then show "lookup (segmentation_of r) p = Some 0"
      using c v by (auto simp: zeros_tabulate lookup_tabulate dest: evolves_outside)
  }
  {
    assume a: "set (data inner_mask) \<subseteq> {False}"
    have "\<not> inside inner_mask p" for p
    proof
      assume "inside inner_mask p"
      then have "True \<in> set (data inner_mask)"
        unfolding inside_def lookup_def by (auto dest!: map_of_SomeD set_zip_rightD)
      with a show False by auto
    qed
    then have "evolves (inside inner_mask) (masked_markers m inner_mask) out \<Longrightarrow> out p = 0"
      for m out p
      by (rule evolves_outside[rotated])
    then show "set (data (segmentation_of r)) \<subseteq> {0}"
      using c by (auto simp: zeros_def tabulate_def)
  }
qed

theorem unmasked_positions_are_background_witness:
  "shape ex_mask = shape ex_field
   \<and> watershed_from_boundary_distance (-) ex_find ex_field ex_mask 10 20
       = Some (Inr (RArray ex_segmentation))
   \<and> lookup ex_mask [0, 2] = Some False
   \<and> lookup (segmentation_of (RArray ex_segmentation)) [0, 2] = Some 0"
proof -
  have m: "lookup ex_mask [0, 2] = Some False"
    by code_simp
  from unmasked_positions_are_background[OF ex_shapes(1), of "(-)" ex_find 10 20] ex_seeded_run m
  have "lookup (segmentation_of (RArray ex_segmentation)) [0, 2] = Some 0"
    by blast
  with ex_shapes(1) ex_seeded_run m show ?thesis
    by simp
qed

section \<open>Labels are offset seed ids\<close>

text \<open>
  Claim C7, as amended.  When at least one seed is found (on a field with an element, with
  seed map and mask in the shape of the field, and with seed ids and id offset that are
  32-bit integers, the ids not negative), the call returns a bare segmentation in the
  shape of the field.  A position carries 0 exactly when no seed with a shifted id other
  than 0 is connected to it inside the mask: everywhere outside the mask, and inside the
  mask wherever no seed reaches.  Every label other than 0 is the shifted id of a seed
  that is connected to the position inside the mask, the shift being the addition of the
  id offset in 32-bit integers; every positive label is a seed id plus the id offset
  exactly; and every seed inside the mask keeps its shifted id at its own position.
\<close>

theorem labels_are_offset_seed_ids:
  assumes "find_seeds boundary_distances min_seed_distance = (seeds, n)"
    and "n \<noteq> 0"
    and "shape seeds = shape boundary_distances"
    and "shape inner_mask = shape boundary_distances"
    and "data boundary_distances \<noteq> []"
    and "- (2 ^ 31) \<le> id_offset" and "id_offset < 2 ^ 31"
    and "\<forall>s\<in>set (data seeds). 0 \<le> s \<and> s < 2 ^ 31"
  shows "\<exists>seg. watershed_from_boundary_distance sub find_seeds boundary_distances inner_mask
                 id_offset min_seed_distance = Some (Inr (RArray seg))
            \<and> shape seg = shape boundary_distances \<and> wellformed seg
            \<and> (\<forall>p\<in>set (indices (shape boundary_distances)).
                   (lookup seg p = Some 0) =
                   (\<not> (\<exists>q s. lookup seeds q = Some s \<and> s \<noteq> 0 \<and> wrap32 (s + id_offset) \<noteq> 0
                             \<and> lookup inner_mask q = Some True
                             \<and> connected_inside inner_mask q p)))
            \<and> (\<forall>p\<in>set (indices (shape boundary_distances)).
                   lookup inner_mask p \<noteq> Some True \<longrightarrow> lookup seg p = Some 0)
            \<and> (\<forall>p l. lookup seg p = Some l \<and> l \<noteq> 0 \<longrightarrow>
                   (\<exists>q s. lookup seeds q = Some s \<and> s \<noteq> 0 \<and> lookup inner_mask q = Some True
                          \<and> connected_inside inner_mask q p \<and> l = wrap32 (s + id_offset)))
            \<and> (\<forall>p l. lookup seg p = Some l \<and> 0 < l \<longrightarrow>
                   (\<exists>q s. lookup seeds q = Some s \<and> s \<noteq> 0 \<and> lookup inner_mask q = Some True
                          \<and> l = s + id_offset))
            \<and> (\<forall>p s. lookup seeds p = Some s \<and> s \<noteq> 0 \<and> wrap32 (s + id_offset) \<noteq> 0
                      \<and> lookup inner_mask p = Some True \<longrightarrow>
                   lookup seg p = Some (wrap32 (s + id_offset)))"
proof -
  let ?mk = "offset_seeds id_offset seeds"
  let ?o = "masked_markers ?mk inner_mask"
  let ?msk = "inside inner_mask"
  from seeded_flood[of find_seeds boundary_distances min_seed_distance seeds n inner_mask
      id_offset sub] assms(1-7) obtain out
    where w: "watershed_from_boundary_distance sub find_seeds boundary_distances inner_mask
                id_offset min_seed_distance = Some (Inr (RArray (tabulate (shape boundary_distances) out)))"
      and ev: "evolves ?msk ?o out"
      and src: "sourced ?msk ?o out"
      and closed: "\<forall>p. out p \<noteq> 0 \<longrightarrow> (\<forall>q\<in>set (neighbors p). ?msk q \<longrightarrow> out q \<noteq> 0)"
    by blast
  let ?seg = "tabulate (shape boundary_distances) out"
  have look: "lookup ?seg p = Some (out p)" if "p \<in> set (indices (shape boundary_distances))" for p
    using that by (simp add: lookup_tabulate)
  have val: "p \<in> set (indices (shape boundary_distances)) \<and> out p = l" if "lookup ?seg p = Some l" for p l
    using that by (auto simp: lookup_tabulate split: if_splits)
  have source: "\<exists>q s. lookup seeds q = Some s \<and> s \<noteq> 0 \<and> wrap32 (s + id_offset) \<noteq> 0
                  \<and> lookup inner_mask q = Some True \<and> connected_inside inner_mask q p
                  \<and> out p = wrap32 (s + id_offset)"
    if "out p \<noteq> 0" for p
  proof -
    from src that obtain q where q: "?o q \<noteq> 0" "out p = ?o q" "(q, p) \<in> (mask_steps ?msk)\<^sup>*"
      unfolding sourced_def by blast
    from q(1) obtain s where s: "lookup seeds q = Some s" "s \<noteq> 0" "wrap32 (s + id_offset) \<noteq> 0"
      "lookup inner_mask q = Some True"
      unfolding marker_seed by blast
    from marker_value[OF s(1,2,4)] q(2) have "out p = wrap32 (s + id_offset)"
      by simp
    with s q(3) show ?thesis
      unfolding connected_inside_def by blast
  qed
  have reached: "out p \<noteq> 0"
    if "lookup seeds q = Some s" "s \<noteq> 0" "wrap32 (s + id_offset) \<noteq> 0"
      "lookup inner_mask q = Some True" "connected_inside inner_mask q p" for p q s
  proof -
    from that(1-4) have "?o q \<noteq> 0"
      unfolding marker_seed by blast
    from flood_reaches[OF ev closed this] that(5) show ?thesis
      unfolding connected_inside_def by blast
  qed
  have 1: "shape ?seg = shape boundary_distances" "wellformed ?seg"
    by (simp_all add: tabulate_def wellformed_def)
  have 2: "\<forall>p\<in>set (indices (shape boundary_distances)).
             (lookup ?seg p = Some 0) =
             (\<not> (\<exists>q s. lookup seeds q = Some s \<and> s \<noteq> 0 \<and> wrap32 (s + id_offset) \<noteq> 0
                       \<and> lookup inner_mask q = Some True
                       \<and> connected_inside inner_mask q p))"
  proof
    fix p assume p: "p \<in> set (indices (shape boundary_distances))"
    show "(lookup ?seg p = Some 0) =
             (\<not> (\<exists>q s. lookup seeds q = Some s \<and> s \<noteq> 0 \<and> wrap32 (s + id_offset) \<noteq> 0
                       \<and> lookup inner_mask q = Some True
                       \<and> connected_inside inner_mask q p))"
      unfolding look[OF p] using source[of p] reached[of _ _ p] by auto
  qed
  have 3: "\<forall>p\<in>set (indices (shape boundary_distances)).
             lookup inner_mask p \<noteq> Some True \<longrightarrow> lookup ?seg p = Some 0"
    using evolves_outside[OF ev] by (simp add: lookup_tabulate inside_def)
  have 4: "\<exists>q s. lookup seeds q = Some s \<and> s \<noteq> 0 \<and> lookup inner_mask q = Some True
                \<and> connected_inside inner_mask q p \<and> l = wrap32 (s + id_offset)"
    if "lookup ?seg p = Some l \<and> l \<noteq> 0" for p l
    using val[of p l] source[of p] that by blast
  have 5: "\<exists>q s. lookup seeds q = Some s \<and> s \<noteq> 0 \<and> lookup inner_mask q = Some True
                \<and> l = s + id_offset"
    if "lookup ?seg p = Some l \<and> 0 < l" for p l
  proof -
    from that val[of p l] have l: "out p = l" "out p \<noteq> 0"
      by auto
    from source[OF l(2)] obtain q s where s: "lookup seeds q = Some s" "s \<noteq> 0"
      "lookup inner_mask q = Some True" "out p = wrap32 (s + id_offset)"
      by blast
    from s(1) have "s \<in> set (data seeds)"
      unfolding lookup_def by (auto dest!: map_of_SomeD set_zip_rightD)
    with assms(8) have "0 \<le> s" "s < 2 ^ 31"
      by auto
    from wrap32_positive[OF this assms(6,7)] s(4) l(1) that have "l = s + id_offset"
      by simp
    with s show ?thesis
      by blast
  qed
  have 6: "lookup ?seg p = Some (wrap32 (s + id_offset))"
    if "lookup seeds p = Some s \<and> s \<noteq> 0 \<and> wrap32 (s + id_offset) \<noteq> 0
        \<and> lookup inner_mask p = Some True" for p s
  proof -
    from that have "lookup ?mk p = Some (wrap32 (s + id_offset))"
      by (simp add: lookup_offset_seeds)
    from evolves_keeps_markers[OF ev this] that have "out p = wrap32 (s + id_offset)"
      by (simp add: inside_def)
    moreover have "p \<in> set (indices (shape boundary_distances))"
      using that lookup_valid assms(3) by metis
    ultimately show ?thesis by (simp add: lookup_tabulate)
  qed
  from w 1 2 3 4 5 6 show ?thesis by blast
qed

lemma ex_connected: "connected_inside ex_mask [0, 0] [0, 1]"
proof -
  have "inside ex_mask [0, 0]" "inside ex_mask [0, 1]" "[0, 1] \<in> set (neighbors [0, 0])"
    by code_simp+
  then have "([0, 0], [0, 1]) \<in> mask_steps (inside ex_mask)"
    by (simp add: mask_steps_def)
  then show ?thesis
    unfolding connected_inside_def by (rule r_into_rtrancl)
qed

lemma ex_seed_range: "\<forall>s\<in>set (data ex_seeds). 0 \<le> s \<and> s < 2 ^ 31"
  by (simp add: ex_seeds_def)

theorem labels_are_offset_seed_ids_witness:
  "ex_find ex_field 20 = (ex_seeds, 2) \<and> (2::nat) \<noteq> 0
   \<and> shape ex_seeds = shape ex_field \<and> shape ex_mask = shape ex_field \<and> data ex_field \<noteq> []
   \<and> - (2 ^ 31) \<le> (10::int) \<and> (10::int) < 2 ^ 31
   \<and> watershed_from_boundary_distance (-) ex_find ex_field ex_mask 10 20
       = Some (Inr (RArray ex_segmentation))
   \<and> lookup ex_seeds [0, 0] = Some 1 \<and> lookup ex_mask [0, 0] = Some True
   \<and> connected_inside ex_mask [0, 0] [0, 1]
   \<and> lookup ex_segmentation [0, 1] \<noteq> Some 0
   \<and> lookup ex_segmentation [0, 1] = Some (1 + 10)
   \<and> lookup ex_mask [0, 2] \<noteq> Some True
   \<and> lookup ex_segmentation [0, 2] = Some 0"
proof -
  have n: "(2::nat) \<noteq> 0" by simp
  have r: "- (2 ^ 31) \<le> (10::int)" "(10::int) < 2 ^ 31" by simp_all
  have v: "[0, 1] \<in> set (indices (shape ex_field))" "[0, 2] \<in> set (indices (shape ex_field))"
    by code_simp+
  have m: "lookup ex_mask [0, 2] \<noteq> Some True" "lookup ex_mask [0, 0] = Some True"
    by code_simp+
  have s: "lookup ex_seeds [0, 0] = Some 1"
    by code_simp
  have k: "wrap32 (1 + 10) \<noteq> 0" "(1::int) \<noteq> 0"
    by (simp_all add: wrap32_def)
  have l: "lookup ex_segmentation [0, 1] = Some (1 + 10)"
    by code_simp
  from labels_are_offset_seed_ids[of ex_find ex_field 20 ex_seeds 2 ex_mask 10 "(-)"]
    ex_shapes n r ex_seed_range ex_seeded_run
  have t: "\<forall>p\<in>set (indices (shape ex_field)).
             (lookup ex_segmentation p = Some 0) =
             (\<not> (\<exists>q s. lookup ex_seeds q = Some s \<and> s \<noteq> 0 \<and> wrap32 (s + 10) \<noteq> 0
                       \<and> lookup ex_mask q = Some True
                       \<and> connected_inside ex_mask q p))"
    "\<forall>p\<in>set (indices (shape ex_field)).
             lookup ex_mask p \<noteq> Some True \<longrightarrow> lookup ex_segmentation p = Some 0"
    by auto
  from t(1) v(1) s k m(2) ex_connected have "lookup ex_segmentation [0, 1] \<noteq> Some 0"
    by blast
  moreover from t(2) v(2) m(1) have "lookup ex_segmentation [0, 2] = Some 0"
    by blast
  ultimately show ?thesis
    using ex_shapes n r ex_seeded_run s m ex_connected l by simp
qed

text \<open>
  On the field \<open>[5, 0, 1]\<close> with a minimal distance of 5 the modelled \<^verbatim>\<open>find_local_maxima\<close>
  reports what the stand-in reports, the one seed at the first pixel.  The runs below use
  the mask \<open>[True, False, True]\<close>; the last two show the addition of the id offset at the
  upper end of the 32-bit integers and beyond it.
\<close>

lemma gap_run:
  "watershed_from_boundary_distance (-) gap_find gap_field gap_mask 0 5
     = Some (Inr (RArray \<lparr>shape = [3], data = [1, 0, 0]\<rparr>))"
  by code_simp

lemma gap_run_shifted:
  "watershed_from_boundary_distance (-) gap_find gap_field gap_mask (- 1) 5
     = Some (Inr (RArray \<lparr>shape = [3], data = [0, 0, 0]\<rparr>))"
  by code_simp

lemma gap_run_wrapped:
  "watershed_from_boundary_distance (-) gap_find gap_field gap_mask (2 ^ 31 - 1) 5
     = Some (Inr (RArray \<lparr>shape = [3], data = [- (2 ^ 31), 0, 0]\<rparr>))"
  by code_simp

lemma gap_run_refused:
  "watershed_from_boundary_distance (-) gap_find gap_field gap_mask (2 ^ 31) 5
     = Some (Inl OverflowError)"
  by code_simp

lemma gap_candidates: "candidates gap_field 5 = [[0]]"
  by code_simp

lemma gap_edges: "region_edges [[0]] = []"
  by code_simp

lemma gap_regions: "same_region [[0]] p q = (p = q)"
  by (simp add: same_region_def gap_edges)

lemma gap_shape: "shape gap_field = [3]"
  by (simp add: gap_field_def)

lemma gap_find_agrees: "find_local_maxima gap_field 5 = gap_find gap_field 5"
  by (simp add: find_local_maxima_def gap_candidates gap_shape Let_def roots_def region_root_def
      gap_regions seed_id_def tabulate_def upt_rec gap_find_def)

text \<open>
  Claim C7 as stated fails: 0 is not used outside the mask only.  On the field
  \<open>[5, 0, 1]\<close> with the mask \<open>[True, False, True]\<close> and the seed at the first pixel, the
  third pixel is inside the mask and keeps 0, since the flood cannot cross the pixel in
  the middle; and with the id offset \<open>-1\<close> the id of the seed is shifted to 0, so that the
  seeded pixel, inside the mask, carries 0 as well.
\<close>

theorem unreached_pixel_counterexample:
  "snd (gap_find gap_field 5) \<noteq> 0
   \<and> watershed_from_boundary_distance (-) gap_find gap_field gap_mask 0 5
       = Some (Inr (RArray \<lparr>shape = [3], data = [1, 0, 0]\<rparr>))
   \<and> lookup gap_mask [2] = Some True
   \<and> lookup \<lparr>shape = [3], data = [1, 0, 0 :: int]\<rparr> [2] = Some 0
   \<and> watershed_from_boundary_distance (-) gap_find gap_field gap_mask (- 1) 5
       = Some (Inr (RArray \<lparr>shape = [3], data = [0, 0, 0]\<rparr>))
   \<and> lookup gap_mask [0] = Some True
   \<and> lookup (fst (gap_find gap_field 5)) [0] = Some 1
   \<and> lookup \<lparr>shape = [3], data = [0, 0, 0 :: int]\<rparr> [0] = Some 0"
proof -
  have "lookup gap_mask [2] = Some True" "lookup gap_mask [0] = Some True"
    "lookup \<lparr>shape = [3], data = [1, 0, 0 :: int]\<rparr> [2] = Some 0"
    "lookup \<lparr>shape = [3], data = [0, 0, 0 :: int]\<rparr> [0] = Some 0"
    "lookup (fst (gap_find gap_field 5)) [0] = Some 1"
    "snd (gap_find gap_field 5) \<noteq> 0"
    by code_simp+
  with gap_run gap_run_shifted show ?thesis
    by simp
qed


section \<open>The two return statements\<close>

text \<open>
  Claim C10.  With zero seeds the result is the pair of an array of zeros and the id
  offset; with at least one seed every result is a bare array.
\<close>

theorem return_arity_differs:
  "(snd (find_seeds boundary_distances min_seed_distance) = 0 \<longrightarrow>
      watershed_from_boundary_distance sub find_seeds boundary_distances inner_mask
        id_offset min_seed_distance
      = Some (Inr (RTuple (zeros (shape boundary_distances)) id_offset)))
   \<and> (snd (find_seeds boundary_distances min_seed_distance) \<noteq> 0 \<longrightarrow>
        (\<forall>r. watershed_from_boundary_distance sub find_seeds boundary_distances inner_mask
               id_offset min_seed_distance = Some (Inr r) \<longrightarrow> (\<exists>seg. r = RArray seg)))"
proof (intro conjI impI allI)
  assume "snd (find_seeds boundary_distances min_seed_distance) = 0"
  then show "watershed_from_boundary_distance sub find_seeds boundary_distances inner_mask
        id_offset min_seed_distance
      = Some (Inr (RTuple (zeros (shape boundary_distances)) id_offset))"
    by (auto simp: watershed_from_boundary_distance_def split: prod.splits)
next
  fix r
  assume n: "snd (find_seeds boundary_distances min_seed_distance) \<noteq> 0"
    and r: "watershed_from_boundary_distance sub find_seeds boundary_distances inner_mask
               id_offset min_seed_distance = Some (Inr r)"
  from wfbd_cases[OF r] n show "\<exists>seg. r = RArray seg"
    by auto
qed

theorem return_arity_differs_witness:
  "snd (ex_none ex_field 20) = 0
   \<and> watershed_from_boundary_distance (-) ex_none ex_field ex_mask 10 20
       = Some (Inr (RTuple (zeros (shape ex_field)) 10))
   \<and> snd (ex_find ex_field 20) \<noteq> 0
   \<and> watershed_from_boundary_distance (-) ex_find ex_field ex_mask 10 20
       = Some (Inr (RArray ex_segmentation))
   \<and> (\<exists>seg. RArray ex_segmentation = RArray seg)"
proof -
  have 1: "snd (ex_none ex_field 20) = 0"
    by (simp add: ex_none_def)
  have 2: "snd (ex_find ex_field 20) \<noteq> 0"
    by (simp add: ex_find_def)
  from return_arity_differs[of ex_none ex_field 20 "(-)" ex_mask 10] 1
  have 3: "watershed_from_boundary_distance (-) ex_none ex_field ex_mask 10 20
       = Some (Inr (RTuple (zeros (shape ex_field)) 10))"
    by blast
  from return_arity_differs[of ex_find ex_field 20 "(-)" ex_mask 10] 2 ex_seeded_run
  have 4: "\<exists>seg. RArray ex_segmentation = RArray seg"
    by blast
  from 1 2 3 4 ex_seeded_run show ?thesis
    by blast
qed

section \<open>Terrain and negated field\<close>

lemma smaller_equiv:
  assumes "order_equivalent msk f g" and "same_item msk f g a b" and "same_item msk f g x y"
  shows "smaller a x = smaller b y"
  using assms unfolding order_equivalent_def same_item_def smaller_def
  by (metis (full_types))

lemma heappush_equiv:
  assumes oe: "order_equivalent msk f g" and ab: "same_item msk f g a b"
    and h: "list_all2 (same_item msk f g) h1 h2"
  shows "list_all2 (same_item msk f g) (heappush a h1) (heappush b h2)"
  using h
proof (induction rule: list_all2_induct)
  case Nil
  then show ?case using ab by simp
next
  case (Cons x xs y ys)
  from smaller_equiv[OF oe ab Cons.hyps(1)] Cons ab show ?case
    by simp
qed

lemma visit_equiv:
  assumes oe: "order_equivalent msk f g" and e: "index e1 = index e2" "source e1 = source e2"
    and st: "same_state msk f g s t"
  shows "same_state msk f g (visit f msk e1 nb s) (visit g msk e2 nb t)"
proof (cases "msk nb \<and> outp s nb = 0")
  case False
  then show ?thesis using st by (auto simp: visit_def same_state_def)
next
  case True
  let ?a = "\<lparr>hval = f nb, age = agec s + 1, index = nb, source = source e1\<rparr>"
  let ?b = "\<lparr>hval = g nb, age = agec t + 1, index = nb, source = source e2\<rparr>"
  have "same_item msk f g ?a ?b"
    using True e st by (simp add: same_item_def same_state_def)
  from heappush_equiv[OF oe this] st have "list_all2 (same_item msk f g)
      (heappush ?a (heap s)) (heappush ?b (heap t))"
    by (simp add: same_state_def)
  then show ?thesis
    using True e st by (simp add: visit_def same_state_def Let_def)
qed

lemma fold_visit_equiv:
  assumes oe: "order_equivalent msk f g" and e: "index e1 = index e2" "source e1 = source e2"
    and st: "same_state msk f g s t"
  shows "same_state msk f g (fold (visit f msk e1) nbs s) (fold (visit g msk e2) nbs t)"
  using st
proof (induction nbs arbitrary: s t)
  case Nil
  then show ?case by simp
next
  case (Cons nb nbs)
  from Cons.IH[OF visit_equiv[OF oe e Cons.prems]] show ?case by simp
qed

lemma watershed_raveled_equiv:
  assumes fin: "finite {p. msk p}" and oe: "order_equivalent msk f g"
    and lab: "labelled_heap s" and st: "same_state msk f g s t"
  shows "watershed_raveled f msk s = watershed_raveled g msk t"
  using lab st
proof (induction "flood_measure msk s" arbitrary: s t rule: less_induct)
  case less
  show ?case
  proof (cases "heap s")
    case Nil
    with less.prems(2) have "heap t = []" "outp s = outp t"
      by (simp_all add: same_state_def)
    with Nil show ?thesis
      by (simp add: watershed_raveled.simps[of f msk s] watershed_raveled.simps[of g msk t])
  next
    case (Cons e1 r1)
    with less.prems(2) obtain e2 r2 where t: "heap t = e2 # r2"
      and e: "same_item msk f g e1 e2" and r: "list_all2 (same_item msk f g) r1 r2"
      by (auto simp: same_state_def list_all2_Cons1)
    let ?s = "fold (visit f msk e1) (neighbors (index e1)) (s\<lparr>heap := r1\<rparr>)"
    let ?t = "fold (visit g msk e2) (neighbors (index e2)) (t\<lparr>heap := r2\<rparr>)"
    have i: "index e1 = index e2" "source e1 = source e2"
      using e by (simp_all add: same_item_def)
    have "same_state msk f g (s\<lparr>heap := r1\<rparr>) (t\<lparr>heap := r2\<rparr>)"
      using less.prems(2) r by (simp add: same_state_def)
    from fold_visit_equiv[OF oe i this, of "neighbors (index e1)"]
    have rel: "same_state msk f g ?s ?t"
      by (simp add: i)
    note p = pop_step[OF fin less.prems(1) Cons, of f "neighbors (index e1)"]
    from less.hyps[OF p(3) p(1) rel]
    have "watershed_raveled f msk ?s = watershed_raveled g msk ?t" .
    then show ?thesis
      using Cons t
      by (simp add: watershed_raveled.simps[of f msk s] watershed_raveled.simps[of g msk t])
  qed
qed

lemma marker_heap_equiv_aux:
  assumes oe: "order_equivalent msk f g" and m: "\<forall>p\<in>set locs. msk p"
    and h: "list_all2 (same_item msk f g) h1 h2"
  shows "list_all2 (same_item msk f g)
           (fold (\<lambda>p h. heappush \<lparr>hval = f p, age = 0, index = p, source = p\<rparr> h) locs h1)
           (fold (\<lambda>p h. heappush \<lparr>hval = g p, age = 0, index = p, source = p\<rparr> h) locs h2)"
  using m h
proof (induction locs arbitrary: h1 h2)
  case Nil
  then show ?case by simp
next
  case (Cons p locs)
  have "same_item msk f g \<lparr>hval = f p, age = 0, index = p, source = p\<rparr>
          \<lparr>hval = g p, age = 0, index = p, source = p\<rparr>"
    using Cons.prems(1) by (simp add: same_item_def)
  from heappush_equiv[OF oe this Cons.prems(2)] Cons.IH Cons.prems(1) show ?case
    by simp
qed

lemma marker_heap_equiv:
  assumes "order_equivalent msk f g" and "\<forall>p\<in>set locs. msk p"
  shows "list_all2 (same_item msk f g) (marker_heap f locs) (marker_heap g locs)"
  unfolding marker_heap_def by (rule marker_heap_equiv_aux[OF assms]) simp

lemma watershed_equiv:
  assumes sh: "shape t1 = shape t2"
    and oe: "order_equivalent (inside in_mask) (pixel t1) (pixel t2)"
  shows "watershed t1 markers in_mask = watershed t2 markers in_mask"
proof (cases "shape in_mask \<noteq> shape t1 \<or> shape markers \<noteq> shape t1")
  case True
  then show ?thesis using sh by (simp add: watershed_def)
next
  case False
  let ?locs = "filter (\<lambda>p. masked_markers markers in_mask p \<noteq> 0) (indices (shape t1))"
  let ?s = "\<lparr>heap = marker_heap (pixel t1) ?locs, outp = masked_markers markers in_mask, agec = 1\<rparr>"
  let ?t = "\<lparr>heap = marker_heap (pixel t2) ?locs, outp = masked_markers markers in_mask, agec = 1\<rparr>"
  have "\<forall>p\<in>set ?locs. inside in_mask p"
    by (auto intro: masked_markers_inside)
  from marker_heap_equiv[OF oe this] have st: "same_state (inside in_mask) (pixel t1) (pixel t2) ?s ?t"
    by (simp add: same_state_def)
  have lab: "labelled_heap ?s"
    by (auto simp: labelled_heap_def set_marker_heap)
  from watershed_raveled_equiv[OF finite_inside oe lab st] False sh show ?thesis
    by (auto simp: watershed_def Let_def split: option.splits)
qed

lemma pixel_map_nd:
  "lookup d p = Some x \<Longrightarrow> pixel (map_nd f d) p = f x"
  by (simp add: pixel_def lookup_map_nd)

text \<open>
  Claim C8, as amended.  The watershed on the terrain the code passes,
  \<^verbatim>\<open>boundary_distances.max() - boundary_distances\<close>, equals the watershed on the negated
  field with the same seeds and mask whenever subtracting from the maximum reverses the
  order of the field's values strictly, as exact subtraction always does.
\<close>

theorem terrain_floods_like_negated_field:
  fixes boundary_distances :: "'a::linordered_ab_group_add ndarray"
  assumes wf: "wellformed boundary_distances"
    and m: "amax boundary_distances = Inr m"
    and mono: "\<forall>x\<in>set (data boundary_distances). \<forall>y\<in>set (data boundary_distances).
                 x < y \<longrightarrow> sub m y < sub m x"
  shows "\<exists>t. terrain sub boundary_distances = Inr t
           \<and> watershed t seeds inner_mask = watershed (negated boundary_distances) seeds inner_mask"
proof -
  let ?d = boundary_distances
  let ?t = "map_nd (sub m) ?d"
  have t: "terrain sub ?d = Inr ?t"
    using m by (simp add: terrain_def)
  have "watershed ?t seeds inner_mask = watershed (negated ?d) seeds inner_mask"
  proof (cases "shape inner_mask = shape ?d")
    case False
    then show ?thesis by (simp add: watershed_def map_nd_def negated_def)
  next
    case True
    have oe: "order_equivalent (inside inner_mask) (pixel ?t) (pixel (negated ?d))"
      unfolding order_equivalent_def
    proof (intro allI impI)
      fix p q assume "inside inner_mask p \<and> inside inner_mask q"
      then have "p \<in> set (indices (shape ?d))" "q \<in> set (indices (shape ?d))"
        using True by (auto simp: inside_def dest: lookup_valid)
      with lookup_wellformed[OF wf] obtain x y
        where x: "lookup ?d p = Some x" "x \<in> set (data ?d)"
          and y: "lookup ?d q = Some y" "y \<in> set (data ?d)"
        by blast
      have lt: "sub m x < sub m y \<longleftrightarrow> y < x"
        using mono x(2) y(2) by (metis less_asym' linorder_neqE less_irrefl)
      have eq: "sub m x = sub m y \<longleftrightarrow> x = y"
        using mono x(2) y(2) by (metis linorder_neqE less_irrefl)
      show "(pixel ?t p < pixel ?t q \<longleftrightarrow> pixel (negated ?d) p < pixel (negated ?d) q)
          \<and> (pixel ?t p = pixel ?t q \<longleftrightarrow> pixel (negated ?d) p = pixel (negated ?d) q)"
        using lt eq by (simp add: pixel_map_nd[OF x(1)] pixel_map_nd[OF y(1)] negated_def)
    qed
    show ?thesis
      by (rule watershed_equiv[OF _ oe]) (simp add: map_nd_def negated_def)
  qed
  with t show ?thesis by blast
qed

theorem terrain_floods_like_negated_field_witness:
  "wellformed ex_field \<and> amax ex_field = Inr 5
   \<and> terrain (-) ex_field = Inr \<lparr>shape = [2, 3], data = [2, 4, 5, 5, 3, 0]\<rparr>
   \<and> watershed \<lparr>shape = [2, 3], data = [2, 4, 5, 5, 3, 0 :: real]\<rparr> ex_seeds ex_mask
       = watershed (negated ex_field) ex_seeds ex_mask"
proof -
  have mono: "\<forall>x\<in>set (data ex_field). \<forall>y\<in>set (data ex_field). x < y \<longrightarrow> 5 - y < 5 - x"
    by simp
  from terrain_floods_like_negated_field[of ex_field 5 "(-)" ex_seeds ex_mask]
    ex_wellformed ex_terrain_run mono
  show ?thesis
    by simp
qed

text \<open>
  With 64-bit floats the subtraction rounds: every difference \<open>1 - h\<close> with
  \<open>0 < h \<le> 2\<^sup>-\<^sup>5\<^sup>5\<close> is 1.
\<close>

lemma round_half_even_of_int: "round_half_even (of_int k) = k"
  by (simp add: round_half_even_def)

lemma round_half_even_up:
  assumes "of_int k + 1 / 2 < r" and "r < of_int k + 1"
  shows "round_half_even r = k + 1"
proof -
  have "\<lfloor>r\<rfloor> = k"
    by (rule floor_unique) (use assms in simp_all)
  with assms show ?thesis
    by (simp add: round_half_even_def)
qed

lemma binary64_zero: "binary64 0 = 0"
  by (simp add: binary64_def)

lemma binary64_one: "binary64 1 = 1"
proof -
  have u: "(2::real) powr (of_int (max \<lfloor>log 2 \<bar>1\<bar>\<rfloor> (- 1022)) - 52) = 1 / 2 ^ 52"
    by (simp add: powr_minus powr_numeral field_simps)
  have "round_half_even (1 / (1 / 2 ^ 52)) = 2 ^ 52"
    using round_half_even_of_int[of "2 ^ 52"] by simp
  then show ?thesis
    unfolding binary64_def Let_def u by simp
qed

lemma binary64_below_one:
  assumes "0 < h" and "h \<le> 1 / 2 ^ 55"
  shows "binary64 (1 - h) = 1"
proof -
  let ?x = "1 - h"
  have h1: "h < 1 / 2"
    using assms(2) by simp
  have x: "0 < ?x" "?x \<noteq> 0" "\<bar>?x\<bar> = ?x"
    using h1 by auto
  have "2 powr (-1) \<le> ?x \<and> ?x < 2 powr (-1 + 1)"
    using h1 assms(1) by (simp add: powr_minus)
  then have "\<lfloor>log 2 ?x\<rfloor> = -1"
    using x(1) floor_log_eq_powr_iff[of ?x 2 "-1"] by simp
  then have e: "max \<lfloor>log 2 \<bar>?x\<bar>\<rfloor> (- 1022) = -1"
    using x(3) by simp
  have u: "(2::real) powr (of_int (-1) - 52) = 1 / 2 ^ 53"
    by (simp add: powr_minus powr_numeral field_simps)
  have q: "?x / (1 / 2 ^ 53) = 2 ^ 53 - h * 2 ^ 53"
    by (simp add: field_simps)
  have hb: "0 < h * 2 ^ 53" "h * 2 ^ 53 \<le> 1 / 4"
    using assms by simp_all
  have "round_half_even (2 ^ 53 - h * 2 ^ 53) = (2 ^ 53 - 1) + 1"
    by (rule round_half_even_up) (use hb in simp_all)
  then have r: "round_half_even (?x / (1 / 2 ^ 53)) = 2 ^ 53"
    by (simp add: q)
  show ?thesis
    unfolding binary64_def Let_def e u r using x(2) by simp
qed

lemma sub64_values:
  "sub64 1 1 = 0" "sub64 1 0 = 1"
  "sub64 1 (1 / 2 ^ 59) = 1" "sub64 1 (1 / 2 ^ 60) = 1" "sub64 1 (1 / 2 ^ 61) = 1"
  using binary64_below_one[of "1 / 2 ^ 59"] binary64_below_one[of "1 / 2 ^ 60"]
    binary64_below_one[of "1 / 2 ^ 61"]
  by (simp_all add: sub64_def binary64_zero binary64_one)

lemma tiny_amax: "amax tiny_field = Inr 1"
  by (simp add: amax_def tiny_field_def)

lemma tiny_differences: "map (sub64 1) (data tiny_field) = [0, 1, 1, 1, 1]"
  unfolding tiny_field_def by (simp only: ndarray.select_convs list.map sub64_values)

lemma tiny_shape: "shape tiny_field = [5]"
  by (simp add: tiny_field_def)

lemma tiny_terrain:
  "terrain sub64 tiny_field = Inr tiny_rounded"
  by (simp add: terrain_def tiny_amax map_nd_def tiny_differences tiny_shape tiny_rounded_def)

lemma tiny_rounded_run:
  "watershed tiny_rounded tiny_seeds tiny_mask
   = Some (Inr \<lparr>shape = [5], data = [1, 1, 1, 2, 2]\<rparr>)"
  by code_simp

lemma tiny_negated_run:
  "watershed (negated tiny_field) tiny_seeds tiny_mask
   = Some (Inr \<lparr>shape = [5], data = [1, 1, 1, 1, 2]\<rparr>)"
  by code_simp

text \<open>
  Claim C8 as stated fails for 64-bit floats.  On the field
  \<open>[1, 2\<^sup>-\<^sup>5\<^sup>9, 2\<^sup>-\<^sup>6\<^sup>0, 0, 2\<^sup>-\<^sup>6\<^sup>1]\<close> the terrain rounds to \<open>[0, 1, 1, 1, 1]\<close>; the seed
  at the right end then ties with its neighbours and floods one pixel further than it
  does on the negated field.
\<close>

theorem rounded_terrain_counterexample:
  "terrain sub64 tiny_field = Inr tiny_rounded
   \<and> watershed tiny_rounded tiny_seeds tiny_mask
       = Some (Inr \<lparr>shape = [5], data = [1, 1, 1, 2, 2]\<rparr>)
   \<and> watershed (negated tiny_field) tiny_seeds tiny_mask
       = Some (Inr \<lparr>shape = [5], data = [1, 1, 1, 1, 2]\<rparr>)
   \<and> watershed tiny_rounded tiny_seeds tiny_mask
       \<noteq> watershed (negated tiny_field) tiny_seeds tiny_mask"
  using tiny_terrain tiny_rounded_run tiny_negated_run by simp

section \<open>Rounding of values between -1 and 1\<close>

text \<open>
  Rounding to nearest never leaves the interval from \<open>-1\<close> to \<open>1\<close>, whose ends are 64-bit
  floats, and it keeps the sign of a value that is not tiny.
\<close>

lemma round_half_even_cases: "round_half_even r = \<lfloor>r\<rfloor> \<or> round_half_even r = \<lfloor>r\<rfloor> + 1 \<and> of_int \<lfloor>r\<rfloor> < r"
  by (auto simp: round_half_even_def Let_def)

lemma round_half_even_le:
  assumes "r \<le> of_int n"
  shows "round_half_even r \<le> n"
proof -
  have f: "\<lfloor>r\<rfloor> \<le> n" using assms by (simp add: floor_le_iff)
  from round_half_even_cases[of r] show ?thesis
  proof
    assume "round_half_even r = \<lfloor>r\<rfloor>" with f show ?thesis by simp
  next
    assume a: "round_half_even r = \<lfloor>r\<rfloor> + 1 \<and> of_int \<lfloor>r\<rfloor> < r"
    then have "of_int \<lfloor>r\<rfloor> < (of_int n :: real)" using assms by linarith
    then have "\<lfloor>r\<rfloor> < n" by simp
    with a show ?thesis by simp
  qed
qed

lemma round_half_even_ge:
  assumes "of_int n \<le> r"
  shows "n \<le> round_half_even r"
proof -
  have "n \<le> \<lfloor>r\<rfloor>" using assms by (simp add: le_floor_iff)
  with round_half_even_cases[of r] show ?thesis by auto
qed

lemma binary64_unit_range:
  assumes "\<bar>y\<bar> \<le> 1"
  shows "\<bar>binary64 y\<bar> \<le> 1"
proof (cases "y = 0")
  case True
  then show ?thesis by (simp add: binary64_def)
next
  case False
  define e where "e = max \<lfloor>log 2 \<bar>y\<bar>\<rfloor> (- 1022)"
  define ulp :: real where "ulp = 2 powr (of_int e - 52)"
  have "log 2 \<bar>y\<bar> \<le> 0" using assms False by simp
  then have "\<lfloor>log 2 \<bar>y\<bar>\<rfloor> \<le> 0" by (simp add: floor_le_iff)
  then have e: "e \<le> 0" and e2: "- 1022 \<le> e" by (simp_all add: e_def)
  have ulp_pos: "0 < ulp" by (simp add: ulp_def)
  define k where "k = nat (52 - e)"
  have "of_int e - 52 = - real k"
    using e by (simp add: k_def)
  then have ulp: "ulp = 1 / 2 ^ k"
    by (simp add: ulp_def powr_minus powr_realpow divide_inverse)
  have "\<bar>y / ulp\<bar> = \<bar>y\<bar> * 2 ^ k"
    by (simp add: ulp abs_mult)
  also have "\<dots> \<le> 1 * 2 ^ k"
    using assms by (intro mult_right_mono) simp_all
  finally have b: "\<bar>y / ulp\<bar> \<le> 2 ^ k"
    by simp
  have "y / ulp \<le> \<bar>y / ulp\<bar>" "- \<bar>y / ulp\<bar> \<le> y / ulp"
    by (rule abs_ge_self, rule abs_ge_minus_self[THEN minus_le_iff[THEN iffD1]])
  with b have "y / ulp \<le> of_int (2 ^ k)" "of_int (- (2 ^ k)) \<le> y / ulp"
    by simp_all
  then have "round_half_even (y / ulp) \<le> 2 ^ k" "- (2 ^ k) \<le> round_half_even (y / ulp)"
    using round_half_even_le[of "y / ulp" "2 ^ k"] round_half_even_ge[of "- (2 ^ k)" "y / ulp"]
    by simp_all
  then have "\<bar>round_half_even (y / ulp)\<bar> \<le> 2 ^ k"
    by (simp add: abs_le_iff)
  then have "\<bar>of_int (round_half_even (y / ulp)) :: real\<bar> \<le> 2 ^ k"
    by (metis of_int_abs of_int_le_iff of_int_numeral of_int_power)
  then have "\<bar>of_int (round_half_even (y / ulp)) * ulp\<bar> \<le> 2 ^ k * ulp"
    using ulp_pos by (simp add: abs_mult)
  moreover have "2 ^ k * ulp = 1" by (simp add: ulp)
  moreover have "binary64 y = of_int (round_half_even (y / ulp)) * ulp"
    using False by (simp add: binary64_def e_def ulp_def Let_def)
  ultimately show ?thesis by simp
qed

lemma binary64_negative:
  assumes "y \<le> - (1 / 64)"
  shows "binary64 y < 0"
proof -
  have y: "y \<noteq> 0" "0 < \<bar>y\<bar>" "1 / 64 \<le> \<bar>y\<bar>" "\<bar>y\<bar> = - y"
    using assms by (auto simp: abs_if)
  define e where "e = \<lfloor>log 2 \<bar>y\<bar>\<rfloor>"
  define ulp :: real where "ulp = 2 powr (of_int e - 52)"
  have "(2::real) powr (- 6) = 1 / 64"
    by (simp add: powr_minus powr_numeral field_simps)
  with y(3) have "2 powr (- 6) \<le> \<bar>y\<bar>"
    by simp
  then have "log 2 (2 powr (- 6)) \<le> log 2 \<bar>y\<bar>"
    using y(2) by (subst log_le_cancel_iff) simp_all
  then have "- 6 \<le> log 2 \<bar>y\<bar>"
    by simp
  then have "- 6 \<le> e"
    unfolding e_def by (simp add: le_floor_iff)
  then have m: "max \<lfloor>log 2 \<bar>y\<bar>\<rfloor> (- 1022) = e"
    by (simp add: e_def)
  have "of_int e \<le> log 2 \<bar>y\<bar>"
    unfolding e_def by (rule of_int_floor_le)
  then have "2 powr of_int e \<le> 2 powr log 2 \<bar>y\<bar>"
    by (subst powr_le_cancel_iff) simp_all
  then have "2 powr of_int e \<le> \<bar>y\<bar>"
    using y(2) by simp
  moreover have "ulp \<le> 2 powr of_int e"
    unfolding ulp_def by (subst powr_le_cancel_iff) simp_all
  ultimately have u: "ulp \<le> - y" using y(4) by linarith
  have ulp_pos: "0 < ulp" by (simp add: ulp_def)
  have "y / ulp \<le> - 1"
    using u ulp_pos by (simp add: pos_divide_le_eq)
  then have "y / ulp \<le> of_int (- 1)"
    by simp
  from round_half_even_le[OF this] have "round_half_even (y / ulp) \<le> - 1" .
  then have "(of_int (round_half_even (y / ulp)) :: real) \<le> - 1"
    by linarith
  then have "of_int (round_half_even (y / ulp)) * ulp \<le> - 1 * ulp"
    using ulp_pos by (intro mult_right_mono) simp_all
  moreover have "binary64 y = of_int (round_half_even (y / ulp)) * ulp"
    unfolding binary64_def Let_def m ulp_def using y(1) by simp
  ultimately show ?thesis
    using ulp_pos by linarith
qed

text \<open>
  The hyperbolic tangent is closer to 1 than half the spacing of the floats below 1 from
  the argument 28 on; it is at least \<open>x / (1 + 2 * x)\<close> for \<open>x \<ge> 0\<close>.
\<close>

lemma tanh_as_quotient:
  fixes x :: real
  defines "E \<equiv> exp (- 2 * x)"
  shows "tanh x = (1 - E) / (1 + E)" and "1 - tanh x = 2 * E / (1 + E)" and "0 < E"
proof -
  show e: "0 < E" by (simp add: E_def)
  show t: "tanh x = (1 - E) / (1 + E)"
    unfolding E_def by (rule tanh_real_altdef)
  have ne: "1 + E \<noteq> 0" using e by linarith
  have "(1 - E) / (1 + E) + 2 * E / (1 + E) = (1 + E) / (1 + E)"
    by (simp add: add_divide_distrib[symmetric])
  also have "\<dots> = 1" using ne by simp
  finally show "1 - tanh x = 2 * E / (1 + E)"
    unfolding t by linarith
qed

lemma one_minus_tanh_bounds:
  fixes x :: real
  shows "0 < 1 - tanh x" and "1 - tanh x \<le> 2 * exp (- 2 * x)"
proof -
  define E where "E = exp (- 2 * x)"
  note q = tanh_as_quotient[of x, folded E_def]
  have p: "0 < 1 + E" using q(3) by linarith
  have "2 * E / (1 + E) \<le> 2 * E / 1"
    using q(3) p by (intro divide_left_mono) simp_all
  then show "1 - tanh x \<le> 2 * exp (- 2 * x)"
    using q(2) by (simp add: E_def)
  have "0 < 2 * E / (1 + E)"
    using q(3) p by (intro divide_pos_pos) simp_all
  then show "0 < 1 - tanh x"
    using q(2) by simp
qed

lemma exp_56: "(2::real) ^ 56 \<le> exp 56"
proof -
  have "(2::real) \<le> exp 1"
    using exp_ge_add_one_self[of "1::real"] by simp
  then have "(2::real) ^ 56 \<le> exp 1 ^ 56"
    by (intro power_mono) simp_all
  also have "\<dots> = exp (real 56 * 1)"
    by (rule exp_of_nat_mult[symmetric])
  finally show ?thesis by simp
qed

lemma tanh_saturates:
  assumes "28 \<le> x"
  shows "binary64 (tanh x) = 1"
proof -
  have "exp (- 2 * x) \<le> exp (- 56)"
    using assms by simp
  also have "\<dots> = 1 / exp 56"
    by (simp add: exp_minus divide_inverse)
  also have "\<dots> \<le> 1 / 2 ^ 56"
    using exp_56 by (intro divide_left_mono) simp_all
  finally have "2 * exp (- 2 * x) \<le> 1 / 2 ^ 55"
    by simp
  with one_minus_tanh_bounds[of x] have "0 < 1 - tanh x" "1 - tanh x \<le> 1 / 2 ^ 55"
    by linarith+
  from binary64_below_one[OF this] show ?thesis by simp
qed

lemma tanh_lower:
  fixes x :: real
  assumes "0 \<le> x"
  shows "x / (1 + 2 * x) \<le> tanh x"
proof -
  define E where "E = exp (- 2 * x)"
  define t where "t = x / (1 + 2 * x)"
  note q = tanh_as_quotient[of x, folded E_def]
  have p: "0 < 1 + 2 * x" using assms by simp
  define B where "B = 1 / (1 + 2 * x)"
  have "1 + 2 * x \<le> exp (2 * x)"
    using exp_ge_add_one_self[of "2 * x"] by simp
  then have "1 / exp (2 * x) \<le> 1 / (1 + 2 * x)"
    using p by (intro divide_left_mono) simp_all
  moreover have "E = 1 / exp (2 * x)"
    by (simp add: E_def exp_minus divide_inverse)
  ultimately have eb: "E \<le> B"
    by (simp add: B_def)
  have "1 - B = 2 * t"
    using p unfolding B_def t_def by (simp add: field_simps)
  with eb have n: "2 * t \<le> 1 - E"
    by linarith
  have t0: "0 \<le> 1 - E"
    using assms by (simp add: E_def)
  have d: "1 + E \<le> 2" "0 < 1 + E"
    using t0 q(3) by linarith+
  have hi: "(1 - E) / 2 \<le> (1 - E) / (1 + E)"
    using d t0 by (intro divide_left_mono) simp_all
  have lo: "t \<le> (1 - E) / 2"
    using n by (simp add: field_simps)
  from order_trans[OF lo hi] show ?thesis
    unfolding q(1) t_def .
qed

section \<open>The spline coefficients solve the interpolation equations\<close>

lemma spline_tail_length: "length (spline_tail b u d fs) = length fs"
  by (induction b u d fs rule: spline_tail.induct) (simp_all add: Let_def)

lemma spline_tail_rows:
  assumes "0 < b" and "0 \<le> u" and "2 * u \<le> b" and "fs \<noteq> []"
    and "b * x + u * hd (spline_tail b u d fs) = d"
  shows "spline_rows x (spline_tail b u d fs) fs"
  using assms
proof (induction b u d fs arbitrary: x rule: spline_tail.induct)
  case (1 b u d)
  then show ?case by simp
next
  case (2 b u d f)
  define c where "c = (6 * f - 2 * d / b) / (4 - 2 * u / b)"
  have "2 * u / b \<le> 1"
    using 2(1,3) by (simp add: pos_divide_le_eq)
  then have pivot: "4 - 2 * u / b \<noteq> 0"
    by linarith
  then have "c * (4 - 2 * u / b) = 6 * f - 2 * d / b"
    by (simp add: c_def)
  moreover have "c * (4 - 2 * u / b) = 4 * c - 2 * (u * c / b)"
    by (simp add: algebra_simps)
  moreover have "2 * d / b = 2 * (d / b)"
    by simp
  ultimately have e: "4 * c - 2 * (u * c / b) = 6 * f - 2 * (d / b)"
    by linarith
  from 2(5) have "b * x + u * c = d"
    by (simp add: c_def)
  then have "(b * x + u * c) / b = d / b"
    by simp
  then have "x + u * c / b = d / b"
    using 2(1) by (simp add: add_divide_distrib)
  with e have "x + 4 * c + x = 6 * f"
    by linarith
  then show ?case
    by (simp add: c_def)
next
  case (3 b u d f g fs)
  define b' where "b' = 4 - u / b"
  define d' where "d' = 6 * f - d / b"
  define cs where "cs = spline_tail b' 1 d' (g # fs)"
  define c where "c = (d' - hd cs) / b'"
  have t: "spline_tail b u d (f # g # fs) = c # cs"
    by (simp add: Let_def b'_def d'_def cs_def c_def)
  have "length cs = length (g # fs)"
    unfolding cs_def by (rule spline_tail_length)
  then obtain c' cs' where cs: "cs = c' # cs'"
    by (cases cs) auto
  have "2 * (u / b) \<le> 1"
    using 3(2,4) by (simp add: pos_divide_le_eq)
  then have b': "0 < b'" "2 * 1 \<le> b'"
    unfolding b'_def by linarith+
  then have "b' * c + 1 * hd cs = d'"
    by (simp add: c_def)
  from 3(1)[OF b'_def d'_def b'(1) _ b'(2) _ this[unfolded cs_def]]
  have rows: "spline_rows c cs (g # fs)"
    by (simp add: cs_def)
  from 3(6) have "b * x + u * hd (c # cs) = d"
    unfolding t .
  then have "b * x + u * c = d"
    by simp
  then have "(b * x + u * c) / b = d / b"
    by simp
  then have "x + u * c / b = d / b"
    using 3(2) by (simp add: add_divide_distrib)
  moreover have "b' * c + c' = d'"
    using b'(1) by (simp add: c_def cs)
  moreover have "b' * c = 4 * c - u * c / b"
    by (simp add: b'_def algebra_simps)
  ultimately have "x + 4 * c + c' = 6 * f"
    unfolding d'_def by linarith
  with rows have "spline_rows x (c # cs) (f # g # fs)"
    by (simp add: cs)
  then show ?case
    unfolding t .
qed

lemma spline_coefficients_interpolate: "interpolates (spline_coefficients fs) fs"
proof (cases fs rule: spline_coefficients.cases)
  case 1
  then show ?thesis by (simp add: interpolates_def)
next
  case (2 f)
  then show ?thesis by (simp add: interpolates_def)
next
  case (3 f g fs')
  define cs where "cs = spline_tail 4 2 (6 * f) (g # fs')"
  define c0 where "c0 = (6 * f - 2 * hd cs) / 4"
  have "length cs = length (g # fs')"
    unfolding cs_def by (rule spline_tail_length)
  then obtain c1 cs' where cs: "cs = c1 # cs'"
    by (cases cs) auto
  have "4 * c0 = 6 * f - 2 * hd cs"
    unfolding c0_def by simp
  then have e: "4 * c0 + 2 * hd cs = 6 * f"
    by linarith
  then have "spline_rows c0 cs (g # fs')"
    unfolding cs_def by (intro spline_tail_rows) simp_all
  moreover have "spline_coefficients fs = c0 # cs"
    by (simp add: 3 Let_def cs_def c0_def)
  ultimately show ?thesis
    using e by (simp add: interpolates_def 3 cs)
qed

section \<open>The signed distance transform of two masks\<close>

text \<open>
  The labels \<open>[1, 2]\<close> and \<open>[1, 1, 1, 1, 2, 3, 3, 3, 3]\<close>, step by step: the indicator, its
  zero entries, the distances to them, the spline through the distances, and its values
  between the entries.
\<close>

lemma two_bounds: "sdt_bounds two_labels 0 = \<lparr>shape = [3], data = [True, False, True]\<rparr>"
  by code_simp

lemma nine_bounds:
  "sdt_bounds nine_labels 0 =
     \<lparr>shape = [10], data = [True, True, True, True, False, False, True, True, True, True]\<rparr>"
  by code_simp

lemma two_zeros:
  "filter (\<lambda>q. lookup \<lparr>shape = [3], data = [True, False, True]\<rparr> q = Some False) (indices [3]) = [[1]]"
  by code_simp

lemma nine_zeros:
  "filter (\<lambda>q. lookup \<lparr>shape = [10], data = [True, True, True, True, False, False, True, True, True, True]\<rparr> q = Some False) (indices [10]) = [[4], [5]]"
  by code_simp

lemma two_squares:
  "map (\<lambda>p. least (map (sq_distance p) [[1]])) (indices [3]) = [1, 0, 1]"
  by code_simp

lemma nine_squares:
  "map (\<lambda>p. least (map (sq_distance p) [[4], [5]])) (indices [10]) = [4\<^sup>2, 3\<^sup>2, 2\<^sup>2, 1, 0, 0, 1, 2\<^sup>2, 3\<^sup>2, 4\<^sup>2]"
  by code_simp

lemma edt_with_zero:
  assumes "filter (\<lambda>q. lookup a q = Some False) (indices (shape a)) = z # zs"
  shows "distance_transform_edt far a =
     \<lparr>shape = shape a,
        data = map (\<lambda>p. sqrt (real (least (map (sq_distance p) (z # zs))))) (indices (shape a))\<rparr>"
  by (simp add: distance_transform_edt_def Let_def tabulate_def assms)

lemma edt_without_zero:
  assumes "filter (\<lambda>q. lookup a q = Some False) (indices (shape a)) = []"
  shows "distance_transform_edt far a =
     \<lparr>shape = shape a, data = map (far (shape a)) (indices (shape a))\<rparr>"
  by (simp add: distance_transform_edt_def Let_def tabulate_def assms)

lemma two_edt:
  "distance_transform_edt far \<lparr>shape = [3], data = [True, False, True]\<rparr> = \<lparr>shape = [3], data = [1, 0, 1]\<rparr>"
proof -
  let ?a = "\<lparr>shape = [3], data = [True, False, True]\<rparr>"
  have "map (\<lambda>p. sqrt (real (least (map (sq_distance p) [[1]])))) (indices [3])
        = map (\<lambda>n. sqrt (real n)) (map (\<lambda>p. least (map (sq_distance p) [[1]])) (indices [3]))"
    by (simp only: map_map comp_def)
  also have "\<dots> = [1, 0, 1]"
    unfolding two_squares by simp
  finally have e: "map (\<lambda>p. sqrt (real (least (map (sq_distance p) [[1]])))) (indices [3]) = [1, 0, 1]" .
  have "filter (\<lambda>q. lookup ?a q = Some False) (indices (shape ?a)) = [[1]]"
    by (simp only: ndarray.select_convs two_zeros)
  from edt_with_zero[OF this, of far] show ?thesis
    by (simp only: ndarray.select_convs e)
qed

lemma nine_edt:
  "distance_transform_edt far \<lparr>shape = [10], data = [True, True, True, True, False, False, True, True, True, True]\<rparr>
     = \<lparr>shape = [10], data = [4, 3, 2, 1, 0, 0, 1, 2, 3, 4]\<rparr>"
proof -
  let ?a = "\<lparr>shape = [10], data = [True, True, True, True, False, False, True, True, True, True]\<rparr>"
  have "map (\<lambda>p. sqrt (real (least (map (sq_distance p) [[4], [5]])))) (indices [10])
        = map (\<lambda>n. sqrt (real n)) (map (\<lambda>p. least (map (sq_distance p) [[4], [5]])) (indices [10]))"
    by (simp only: map_map comp_def)
  also have "\<dots> = [4, 3, 2, 1, 0, 0, 1, 2, 3, 4]"
    unfolding nine_squares by (simp del: of_nat_power add: of_nat_power[symmetric])
  finally have e: "map (\<lambda>p. sqrt (real (least (map (sq_distance p) [[4], [5]])))) (indices [10])
      = [4, 3, 2, 1, 0, 0, 1, 2, 3, 4]" .
  have "filter (\<lambda>q. lookup ?a q = Some False) (indices (shape ?a)) = [[4], [5]]"
    by (simp only: ndarray.select_convs nine_zeros)
  from edt_with_zero[OF this, of far] show ?thesis
    by (simp only: ndarray.select_convs e)
qed

lemma uniform_bounds:
  "sdt_bounds uniform_labels 0 = \<lparr>shape = [4], data = [True, True, True, True]\<rparr>"
  by code_simp

lemma uniform_zeros:
  "filter (\<lambda>q. lookup \<lparr>shape = [4], data = [True, True, True, True]\<rparr> q = Some False) (indices [4]) = []"
  by code_simp

lemma uniform_edt:
  "distance_transform_edt before_first \<lparr>shape = [4], data = [True, True, True, True]\<rparr>
     = \<lparr>shape = [4], data = [1, 2, 3, 4]\<rparr>"
proof -
  let ?a = "\<lparr>shape = [4], data = [True, True, True, True]\<rparr>"
  have e: "map (before_first [4]) (indices [4]) = [1, 2, 3, 4]"
    by (simp add: before_first_def upt_rec)
  have "filter (\<lambda>q. lookup ?a q = Some False) (indices (shape ?a)) = []"
    by (simp only: ndarray.select_convs uniform_zeros)
  from edt_without_zero[OF this, of before_first] show ?thesis
    by (simp only: ndarray.select_convs e)
qed

lemma resample_line:
  "resample_axis 0 n \<lparr>shape = [m], data = xs\<rparr> =
     \<lparr>shape = [n],
      data = map (spline_half (spline_coefficients
               (map (\<lambda>j. the (lookup \<lparr>shape = [m], data = xs\<rparr> [j])) [0..<m]))) [0..<n]\<rparr>"
  by (simp add: resample_axis_def tabulate_def comp_def)

lemma two_line:
  "map (\<lambda>j. the (lookup \<lparr>shape = [3], data = [1, 0, 1 :: real]\<rparr> [j])) [0..<3] = [1, 0, 1]"
  by (simp add: lookup_def upt_rec)

lemma two_coefficients: "spline_coefficients [1, 0, 1] = [2, - 1, 2]"
  by (simp add: Let_def)

lemma two_half: "map (spline_half [2, - 1, 2]) [0..<2] = [1 / 2, 1 / 2]"
  by (simp add: spline_half_def reflect_def upt_rec)

lemma two_sampled: "sdt_axis far two_labels 0 = \<lparr>shape = [2], data = [1 / 2, 1 / 2]\<rparr>"
proof -
  have "shape two_labels ! 0 = 2"
    by (simp add: two_labels_def)
  then show ?thesis
    unfolding sdt_axis_def two_bounds two_edt
    by (simp only: resample_line two_line two_coefficients two_half)
qed

lemma nine_line:
  "map (\<lambda>j. the (lookup \<lparr>shape = [10], data = [4, 3, 2, 1, 0, 0, 1, 2, 3, 4 :: real]\<rparr> [j])) [0..<10]
     = [4, 3, 2, 1, 0, 0, 1, 2, 3, 4]"
  by (simp add: lookup_def upt_rec)

lemma nine_coefficients:
  "spline_coefficients [4, 3, 2, 1, 0, 0, 1, 2, 3, 4] =
     [700 / 153, 436 / 153, 310 / 153, 160 / 153, - (32 / 153), - (32 / 153), 160 / 153,
      310 / 153, 436 / 153, 700 / 153]"
  by (simp add: Let_def)

lemma nine_half:
  "map (spline_half [700 / 153, 436 / 153, 310 / 153, 160 / 153, - (32 / 153), - (32 / 153),
          160 / 153, 310 / 153, 436 / 153, 700 / 153]) [0..<9] =
     [1493 / 408, 1001 / 408, 623 / 408, 179 / 408, - (8 / 51), 179 / 408, 623 / 408,
      1001 / 408, 1493 / 408]"
  by (simp add: spline_half_def reflect_def upt_rec)

lemma nine_sampled:
  "sdt_axis far nine_labels 0 =
     \<lparr>shape = [9], data = [1493 / 408, 1001 / 408, 623 / 408, 179 / 408, - (8 / 51),
       179 / 408, 623 / 408, 1001 / 408, 1493 / 408]\<rparr>"
proof -
  have "shape nine_labels ! 0 = 9"
    by (simp add: nine_labels_def)
  then show ?thesis
    unfolding sdt_axis_def nine_bounds nine_edt
    by (simp only: resample_line nine_line nine_coefficients nine_half)
qed

lemma uniform_line:
  "map (\<lambda>j. the (lookup \<lparr>shape = [4], data = [1, 2, 3, 4 :: real]\<rparr> [j])) [0..<4] = [1, 2, 3, 4]"
  by (simp add: lookup_def upt_rec)

lemma uniform_coefficients: "spline_coefficients [1, 2, 3, 4] = [2 / 5, 11 / 5, 14 / 5, 23 / 5]"
  by (simp add: Let_def)

lemma uniform_half:
  "map (spline_half [2 / 5, 11 / 5, 14 / 5, 23 / 5]) [0..<3] = [27 / 20, 5 / 2, 73 / 20]"
  by (simp add: spline_half_def reflect_def upt_rec)

lemma uniform_sampled:
  "sdt_axis before_first uniform_labels 0 = \<lparr>shape = [3], data = [27 / 20, 5 / 2, 73 / 20]\<rparr>"
proof -
  have "shape uniform_labels ! 0 = 3"
    by (simp add: uniform_labels_def)
  then show ?thesis
    unfolding sdt_axis_def uniform_bounds uniform_edt
    by (simp only: resample_line uniform_line uniform_coefficients uniform_half)
qed

lemma tanh64_saturates: "28 \<le> x \<Longrightarrow> tanh64 x = 1"
  by (simp add: tanh64_def tanh_saturates)

lemma two_sdt: "compute_sdt far two_labels (1 / 100) = Inr \<lparr>shape = [2], data = [1, 1]\<rparr>"
proof -
  have s: "shape two_labels = [2]" "data two_labels = [1, 2]"
    by (simp_all add: two_labels_def)
  have t: "tanh64 50 = 1"
    by (rule tanh64_saturates) simp
  show ?thesis
    unfolding compute_sdt_def two_sampled s
    by (simp add: flip_background_def map_nd_def t s)
qed

lemma nine_sdt:
  "compute_sdt far nine_labels 5 =
     Inr \<lparr>shape = [9], data = map (\<lambda>x. tanh64 (x / 5)) [1493 / 408, 1001 / 408, 623 / 408, 179 / 408, - (8 / 51),
       179 / 408, 623 / 408, 1001 / 408, 1493 / 408]\<rparr>"
proof -
  have s: "shape nine_labels = [9]" "data nine_labels = [1, 1, 1, 1, 2, 3, 3, 3, 3]"
    by (simp_all add: nine_labels_def)
  show ?thesis
    unfolding compute_sdt_def nine_sampled s
    by (simp add: flip_background_def map_nd_def s)
qed

lemma uniform_sdt:
  "compute_sdt before_first uniform_labels 5 =
     Inr \<lparr>shape = [3], data = [tanh64 (27 / 100), tanh64 (1 / 2), tanh64 (73 / 100)]\<rparr>"
proof -
  have s: "shape uniform_labels = [3]" "data uniform_labels = [7, 7, 7]"
    by (simp_all add: uniform_labels_def)
  show ?thesis
    unfolding compute_sdt_def uniform_sampled s
    by (simp add: flip_background_def map_nd_def s)
qed

lemma scalar_sdt: "compute_sdt far scalar_label scale = Inl TypeError"
  by (simp add: compute_sdt_def scalar_label_def)

lemma tanh64_negative: "tanh64 (- (8 / 51) / 5) < 0"
proof -
  have "(8 / 255) / (1 + 2 * (8 / 255)) \<le> tanh (8 / 255 :: real)"
    by (rule tanh_lower) simp
  then have "1 / 64 \<le> tanh (8 / 255 :: real)"
    by simp
  then have "tanh (- (8 / 51) / 5 :: real) \<le> - (1 / 64)"
    by simp
  then show ?thesis
    unfolding tanh64_def by (rule binary64_negative)
qed

lemma nine_wellformed: "wellformed nine_labels"
  by (simp add: wellformed_def nine_labels_def upt_rec)

lemma uniform_wellformed: "wellformed uniform_labels"
  by (simp add: wellformed_def uniform_labels_def upt_rec)

section \<open>Shape and range of the signed distance transform\<close>

lemma edt_shape:
  "shape (distance_transform_edt far a) = shape a
   \<and> length (data (distance_transform_edt far a)) = length (indices (shape a))"
  by (simp add: distance_transform_edt_def Let_def tabulate_def)

lemma sdt_axis_shape:
  assumes "axis < length (shape labels)"
  shows "shape (sdt_axis far labels axis) = shape labels
       \<and> length (data (sdt_axis far labels axis)) = length (indices (shape labels))"
proof -
  let ?d = "distance_transform_edt far (sdt_bounds labels axis)"
  from edt_shape[of far "sdt_bounds labels axis"]
  have "shape ?d = (shape labels)[axis := shape labels ! axis - 1 + 2]"
    by (simp add: shape_sdt_bounds[OF assms])
  then have "(shape ?d)[axis := shape labels ! axis] = shape labels"
    by simp
  then show ?thesis
    by (simp add: sdt_axis_def resample_axis_def tabulate_def)
qed

lemma sdt_distances_shape:
  assumes "\<forall>axis\<in>set axes. axis < length (shape labels)"
    and "shape d0 = shape labels" and "length (data d0) = length (indices (shape labels))"
  shows "shape (sdt_distances far labels axes d0) = shape labels
       \<and> length (data (sdt_distances far labels axes d0)) = length (indices (shape labels))"
  using assms
proof (induction axes arbitrary: d0)
  case Nil
  then show ?case by simp
next
  case (Cons axis axes)
  from sdt_axis_shape[of axis labels far] Cons.prems(1)
  have "length (data (sdt_axis far labels axis)) = length (indices (shape labels))"
    by simp
  with Cons.prems(2,3)
  have "shape (minimum_nd d0 (sdt_axis far labels axis)) = shape labels"
    "length (data (minimum_nd d0 (sdt_axis far labels axis))) = length (indices (shape labels))"
    by (simp_all add: minimum_nd_def)
  with Cons.IH[of "minimum_nd d0 (sdt_axis far labels axis)"] Cons.prems(1) show ?case
    by simp
qed

lemma tanh64_range: "- 1 \<le> tanh64 x \<and> tanh64 x \<le> 1"
proof -
  have "\<bar>tanh x\<bar> \<le> 1"
    using tanh_real_lt_1[of x] tanh_real_gt_neg1[of x] by (simp add: abs_le_iff)
  from binary64_unit_range[OF this] show ?thesis
    by (simp add: tanh64_def abs_le_iff)
qed

lemma flip_background_range:
  assumes "v \<in> set (data (flip_background labels (map_nd (\<lambda>x. tanh64 (x / scale)) distances)))"
  shows "- 1 \<le> v \<and> v \<le> 1"
proof -
  from assms have "\<exists>x. v = tanh64 (x / scale) * (- 1) \<or> v = tanh64 (x / scale)"
    by (auto simp: flip_background_def map_nd_def zip_map2 dest!: set_zip_rightD)
  then obtain x where "v = tanh64 (x / scale) * (- 1) \<or> v = tanh64 (x / scale)" ..
  with tanh64_range[of "x / scale"] show ?thesis
    by auto
qed

text \<open>
  With at least one axis the function returns an array in the shape of the labels with
  every value between \<open>-1\<close> and \<open>1\<close>, whatever the labels and whatever the distance transform
  returns for an indicator without a zero entry.
\<close>

lemma compute_sdt_returns:
  assumes wf: "wellformed labels" and ne: "shape labels \<noteq> []"
  shows "\<exists>r. compute_sdt far labels scale = Inr r \<and> shape r = shape labels \<and> wellformed r
            \<and> (\<forall>v\<in>set (data r). - 1 \<le> v \<and> v \<le> 1)"
proof -
  let ?d = "sdt_distances far labels [1..<length (shape labels)] (sdt_axis far labels 0)"
  let ?r = "flip_background labels (map_nd (\<lambda>x. tanh64 (x / scale)) ?d)"
  from ne have "0 < length (shape labels)" by simp
  from sdt_axis_shape[OF this, of far]
  have "shape (sdt_axis far labels 0) = shape labels"
    "length (data (sdt_axis far labels 0)) = length (indices (shape labels))"
    by simp_all
  moreover have "\<forall>axis\<in>set [1..<length (shape labels)]. axis < length (shape labels)"
    by simp
  ultimately have "shape ?d = shape labels \<and> length (data ?d) = length (indices (shape labels))"
    by (intro sdt_distances_shape)
  then have sh: "shape ?d = shape labels" "length (data ?d) = length (indices (shape labels))"
    by blast+
  have "compute_sdt far labels scale = Inr ?r"
    using ne by (simp add: compute_sdt_def split: list.splits)
  moreover have "shape ?r = shape labels"
    using sh by (simp add: flip_background_def map_nd_def)
  moreover have "wellformed ?r"
    using wf sh by (simp add: flip_background_def map_nd_def wellformed_def)
  moreover have "\<forall>v\<in>set (data ?r). - 1 \<le> v \<and> v \<le> 1"
    using flip_background_range by blast
  ultimately show ?thesis
    by blast
qed

text \<open>
  Claim C1, as amended.  For every label mask with at least one axis and every scale above
  0, \<^verbatim>\<open>compute_sdt\<close> returns an array in the shape of the mask, with one value for every
  position and every value in the closed interval from \<open>-1\<close> to \<open>1\<close>.
\<close>

theorem sdt_shape_and_closed_range:
  assumes "wellformed labels" and "shape labels \<noteq> []" and "0 < scale"
  shows "\<exists>r. compute_sdt far labels scale = Inr r \<and> shape r = shape labels \<and> wellformed r
            \<and> (\<forall>v\<in>set (data r). - 1 \<le> v \<and> v \<le> 1)"
  using assms(1,2) by (rule compute_sdt_returns)

theorem sdt_shape_and_closed_range_witness:
  "wellformed nine_labels \<and> shape nine_labels \<noteq> [] \<and> (0::real) < 5
   \<and> compute_sdt before_first nine_labels 5 =
       Inr \<lparr>shape = [9], data = map (\<lambda>x. tanh64 (x / 5)) [1493 / 408, 1001 / 408, 623 / 408,
         179 / 408, - (8 / 51), 179 / 408, 623 / 408, 1001 / 408, 1493 / 408]\<rparr>
   \<and> shape nine_labels = [9]
   \<and> - 1 \<le> tanh64 (1493 / 408 / 5) \<and> tanh64 (1493 / 408 / 5) \<le> 1
   \<and> - 1 \<le> tanh64 (- (8 / 51) / 5) \<and> tanh64 (- (8 / 51) / 5) \<le> 1"
proof -
  have s: "shape nine_labels = [9]"
    by (simp add: nine_labels_def)
  then have ne: "shape nine_labels \<noteq> []"
    by simp
  from sdt_shape_and_closed_range[OF nine_wellformed ne, of 5 before_first] nine_sdt[of before_first]
  have "- 1 \<le> tanh64 (1493 / 408 / 5) \<and> tanh64 (1493 / 408 / 5) \<le> 1
        \<and> - 1 \<le> tanh64 (- (8 / 51) / 5) \<and> tanh64 (- (8 / 51) / 5) \<le> 1"
    by simp
  then show ?thesis
    using nine_wellformed nine_sdt[of before_first] s by simp
qed

text \<open>
  Claim C1 as stated fails twice.  The interval is not open: for the labels \<open>[1, 2]\<close> and the
  scale \<open>1/100\<close> both sampled distances are \<open>1/2\<close>, the \<^verbatim>\<open>tanh\<close> is taken at 50, and its value
  rounds to 1.  And not every dimensionality is served: for a mask without an axis the call
  raises.
\<close>

theorem saturated_tanh_counterexample:
  "(0::real) < 1 / 100
   \<and> compute_sdt before_first two_labels (1 / 100) = Inr \<lparr>shape = [2], data = [1, 1]\<rparr>
   \<and> compute_sdt before_first scalar_label 5 = Inl TypeError"
  using two_sdt[of before_first] scalar_sdt[of before_first 5] by simp

section \<open>Sign of the signed distance transform\<close>

text \<open>
  Claim C2 at the labels \<open>[1, 1, 1, 1, 2, 3, 3, 3, 3]\<close> with scale 5.  The pixel with the
  label 2 lies between two boundaries; the distances along the row are
  \<open>[4, 3, 2, 1, 0, 0, 1, 2, 3, 4]\<close>, and between the two zeros the cubic spline through them
  dips to \<open>-8/51\<close>.  The value of the pixel is negative although its label is not 0.
\<close>

theorem pixel_between_two_boundaries_is_negative:
  "lookup nine_labels [4] = Some 2
   \<and> map_sum id (\<lambda>r. lookup r [4]) (compute_sdt far nine_labels 5)
       = Inr (Some (tanh64 (- (8 / 51) / 5)))
   \<and> tanh64 (- (8 / 51) / 5) < 0"
proof -
  have "lookup nine_labels [4] = Some 2"
    by (simp add: nine_labels_def lookup_def upt_rec)
  moreover have "map_sum id (\<lambda>r. lookup r [4]) (compute_sdt far nine_labels 5)
      = Inr (Some (tanh64 (- (8 / 51) / 5)))"
    unfolding nine_sdt by (simp add: lookup_def upt_rec)
  ultimately show ?thesis
    using tanh64_negative by simp
qed

section \<open>Uniform masks\<close>

lemma uniform_indicator:
  assumes "wellformed labels" and "axis < length (shape labels)" and "set (data labels) \<subseteq> {c}"
  shows "set (data (sdt_bounds labels axis)) \<subseteq> {True}"
proof
  fix b assume b: "b \<in> set (data (sdt_bounds labels axis))"
  have same: "lookup labels p = Some x \<Longrightarrow> x = c" for p x
    using assms(3) unfolding lookup_def by (auto dest!: map_of_SomeD set_zip_rightD)
  from b obtain p where p: "p \<in> set (indices ((shape labels)[axis := shape labels ! axis - 1 + 2]))"
    and bp: "b = the (lookup (sdt_bounds labels axis) p)"
    by (auto simp: sdt_bounds_unfold[OF assms(2)] tabulate_def lookup_tabulate[unfolded tabulate_def])
  show "b \<in> {True}"
  proof (cases "p ! axis = 0 \<or> p ! axis = shape labels ! axis - 1 + 1")
    case True
    then show ?thesis
      using bp sdt_bounds_entry[OF assms(1,2) p] by simp
  next
    case False
    let ?q = "p[axis := p ! axis - 1]"
    from p have len: "length p = length (shape labels)"
      and bound: "\<forall>k<length (shape labels). p ! k < ((shape labels)[axis := shape labels ! axis - 1 + 2]) ! k"
      by (simp_all add: valid_iff)
    from bound assms(2) have "p ! axis < shape labels ! axis - 1 + 2" by auto
    with False have inner: "0 < p ! axis" "p ! axis < shape labels ! axis" by auto
    have other: "p ! k < shape labels ! k" if "k < length (shape labels)" "k \<noteq> axis" for k
      using bound that by auto
    have pv: "p \<in> set (indices (shape labels))"
      unfolding valid_iff using len inner other by blast
    have qv: "?q \<in> set (indices (shape labels))"
      unfolding valid_iff using len inner other assms(2)
      by (auto simp: nth_list_update)
    from lookup_wellformed[OF assms(1) pv] lookup_wellformed[OF assms(1) qv] same
    have "lookup labels p = lookup labels ?q"
      by (metis)
    then show ?thesis
      using bp False sdt_bounds_entry[OF assms(1,2) p] by simp
  qed
qed

text \<open>
  Claim C4, as amended.  For a mask with at least one axis whose labels are all the same
  (all 0, or all one positive label) and a scale above 0, no indicator has a zero entry,
  and \<^verbatim>\<open>compute_sdt\<close> returns all the same: an array in the shape of the mask whose values
  are numbers between \<open>-1\<close> and \<open>1\<close>.  The only division by a number that the caller chooses
  is the one by the scale.
\<close>

theorem uniform_masks_give_finite_values:
  assumes "wellformed labels" and "shape labels \<noteq> []" and "set (data labels) \<subseteq> {c}"
    and "0 < scale"
  shows "(\<forall>axis<length (shape labels). set (data (sdt_bounds labels axis)) \<subseteq> {True})
       \<and> (\<exists>r. compute_sdt far labels scale = Inr r \<and> shape r = shape labels \<and> wellformed r
              \<and> (\<forall>v\<in>set (data r). - 1 \<le> v \<and> v \<le> 1))"
  using uniform_indicator[OF assms(1) _ assms(3)] compute_sdt_returns[OF assms(1,2)]
  by blast

theorem uniform_masks_give_finite_values_witness:
  "wellformed uniform_labels \<and> shape uniform_labels \<noteq> [] \<and> set (data uniform_labels) \<subseteq> {7}
   \<and> (0::real) < 5
   \<and> data (sdt_bounds uniform_labels 0) = [True, True, True, True]
   \<and> compute_sdt before_first uniform_labels 5 =
       Inr \<lparr>shape = [3], data = [tanh64 (27 / 100), tanh64 (1 / 2), tanh64 (73 / 100)]\<rparr>
   \<and> - 1 \<le> tanh64 (27 / 100) \<and> tanh64 (27 / 100) \<le> 1
   \<and> - 1 \<le> tanh64 (73 / 100) \<and> tanh64 (73 / 100) \<le> 1"
proof -
  have s: "shape uniform_labels \<noteq> []" "set (data uniform_labels) \<subseteq> {7}"
    by (simp_all add: uniform_labels_def)
  from uniform_masks_give_finite_values[OF uniform_wellformed s, of 5 before_first] uniform_sdt
  have "- 1 \<le> tanh64 (27 / 100) \<and> tanh64 (27 / 100) \<le> 1
        \<and> - 1 \<le> tanh64 (73 / 100) \<and> tanh64 (73 / 100) \<le> 1"
    by simp
  then show ?thesis
    using uniform_wellformed s uniform_sdt uniform_bounds by simp
qed

text \<open>
  Claim C4 as stated fails for a mask without an axis: \<^verbatim>\<open>compute_sdt(np.array(0))\<close> raises
  \<^verbatim>\<open>TypeError\<close> and returns no output.
\<close>

theorem scalar_mask_counterexample:
  "set (data scalar_label) \<subseteq> {0} \<and> compute_sdt before_first scalar_label 5 = Inl TypeError"
  using scalar_sdt[of before_first 5] by (simp add: scalar_label_def)

end
